theory Spec2Isabelle
  imports Main "HOL-Library.Word"
begin

unbundle bit_operations_syntax

section \<open>Constants of generate\_world\_tiles.cc\<close>

text \<open>
  The tool stores every grid cell in a C++ \<open>int\<close>. All metadata values are built from the
  bit constants below by bitwise operations only, so they are modelled as \<open>int\<close> with
  the two's-complement bit operations of HOL (\<open>AND\<close>, \<open>OR\<close>, \<open>NOT\<close>), which agree with
  the 32-bit operations on every value that fits 32 bits.
\<close>

definition kTileSize :: int where "kTileSize = 32"
definition kMaxCollectibleObstacles :: int where "kMaxCollectibleObstacles = 12 * 7"
definition kMaxTileCount :: int where "kMaxTileCount = 32767"
definition kBlankTile :: int where "kBlankTile = - 1"

definition kCollisionMask :: int where "kCollisionMask = 0x07"
definition kCollisionNone :: int where "kCollisionNone = 0x00"
definition kCollisionSquare :: int where "kCollisionSquare = 0x01"
definition kCollisionUpLeft :: int where "kCollisionUpLeft = 0x02"
definition kCollisionUpRight :: int where "kCollisionUpRight = 0x03"
definition kCollisionDownLeft :: int where "kCollisionDownLeft = 0x04"
definition kCollisionDownRight :: int where "kCollisionDownRight = 0x05"

definition kMountUp :: int where "kMountUp = 0x10"
definition kMountDown :: int where "kMountDown = 0x20"
definition kMountLeft :: int where "kMountLeft = 0x40"
definition kMountRight :: int where "kMountRight = 0x80"
definition kMountMask :: int where
  "kMountMask = kMountUp OR kMountDown OR kMountLeft OR kMountRight"

definition kBreakableTile :: int where "kBreakableTile = 0x08"
definition kGhostCollisionTile :: int where "kGhostCollisionTile = 0x4000"

definition kCollectibleTileUp :: int where "kCollectibleTileUp = 0x100"
definition kCollectibleTileDown :: int where "kCollectibleTileDown = 0x200"
definition kCollectibleTileLeft :: int where "kCollectibleTileLeft = 0x400"
definition kCollectibleTileRight :: int where "kCollectibleTileRight = 0x800"

definition kChainReaction :: int where "kChainReaction = 0x1000"
definition kTerminalReaction :: int where "kTerminalReaction = 0x2000"

definition kCollectibleTileMask :: int where
  "kCollectibleTileMask =
     kCollectibleTileUp OR kCollectibleTileDown OR kCollectibleTileLeft OR kCollectibleTileRight"

lemmas k_defs =
  kTileSize_def kMaxCollectibleObstacles_def kMaxTileCount_def kBlankTile_def
  kCollisionMask_def kCollisionNone_def kCollisionSquare_def kCollisionUpLeft_def
  kCollisionUpRight_def kCollisionDownLeft_def kCollisionDownRight_def
  kMountUp_def kMountDown_def kMountLeft_def kMountRight_def kMountMask_def
  kBreakableTile_def kGhostCollisionTile_def
  kCollectibleTileUp_def kCollectibleTileDown_def kCollectibleTileLeft_def
  kCollectibleTileRight_def kChainReaction_def kTerminalReaction_def
  kCollectibleTileMask_def

section \<open>Tile maps\<close>

text \<open>
  \<open>TileRow\<close> is \<open>std::vector<int>\<close> and \<open>TileMap\<close> a vector of rows. \<open>cell_at\<close> is
  the read \<open>tiles[y][x]\<close> and \<open>cell_set\<close> the write \<open>(*output)[y][x] = v\<close>. The source
  indexes without a range check; every theorem below reads and writes inside a grid that
  \<open>grid_ok\<close> describes (what \<open>ResizeOutput\<close> allocates), at coordinates the loops
  keep in range.
\<close>

type_synonym TileRow = "int list"
type_synonym TileMap = "TileRow list"

definition cell_at :: "TileMap \<Rightarrow> int \<Rightarrow> int \<Rightarrow> int" where
  "cell_at tiles x y = tiles ! nat y ! nat x"

definition cell_set :: "TileMap \<Rightarrow> int \<Rightarrow> int \<Rightarrow> int \<Rightarrow> TileMap" where
  "cell_set tiles x y v = tiles[nat y := (tiles ! nat y)[nat x := v]]"

definition grid_ok :: "int \<Rightarrow> int \<Rightarrow> TileMap \<Rightarrow> bool" where
  "grid_ok grid_width grid_height tiles =
     (int (length tiles) = grid_height \<and> list_all (\<lambda>r. int (length r) = grid_width) tiles)"

definition in_grid :: "int \<Rightarrow> int \<Rightarrow> int \<Rightarrow> int \<Rightarrow> bool" where
  "in_grid grid_width grid_height x y =
     (0 \<le> x \<and> x < grid_width \<and> 0 \<le> y \<and> y < grid_height)"

text \<open>
  The loop nest \<open>for y in [0, grid_height) for x in [0, grid_width)\<close> visits the cells in
  raster order; \<open>raster\<close> is that list of \<open>(x, y)\<close> coordinates.
\<close>

definition raster :: "int \<Rightarrow> int \<Rightarrow> (int \<times> int) list" where
  "raster grid_width grid_height =
     map (\<lambda>(y, x). (x, y)) (List.product [0..grid_height - 1] [0..grid_width - 1])"

section \<open>Diagnostics\<close>

text \<open>
  The validators report through \<open>printf\<close>. A report is modelled as a value: one
  constructor for each format string of the source, carrying the four integers the call
  prints, in the order of the call.
\<close>

datatype diagnostic =
    BreakableNeedsCollision int int int int
      \<comment> \<open>\<open>tile[y][x] (px, py): breakable tile needs collision\<close>\<close>
  | CollectibleOverlap int int int int
      \<comment> \<open>\<open>collectible tile can not overlap other annotations\<close>\<close>
  | CollectibleNearEdge int int int int
      \<comment> \<open>\<open>collectible tile can not be placed near edge of map\<close>\<close>
  | CollectibleNeedsSquare int int int int
      \<comment> \<open>\<open>collectible tile must be adjacent to 1 square collision tile\<close>\<close>
  | CollectibleNeedsOneWall int int int int
      \<comment> \<open>\<open>collectible tile must be adjacent to exactly 1 wall\<close>\<close>
  | CollectibleNeedsThreeEmpty int int int int
      \<comment> \<open>\<open>collectible tile must be surrounded by 3 empty tiles and 1 wall\<close>\<close>
  | TooManyCollectibles int int int int
      \<comment> \<open>\<open>too many collectible tiles\<close>\<close>
  | NoMountSupport int int int int
      \<comment> \<open>\<open>tile[ty][tx] does not support mounting at (x,y)\<close>\<close>
  | TerminalNeedsChain int int int int
      \<comment> \<open>\<open>terminal reaction tile must be adjacent to at least one chain reaction tile\<close>\<close>

text \<open>
  An \<open>assert\<close> that fails aborts the tool, and an access the C++ leaves undefined
  (\<open>front()\<close> of an empty vector) has no result: both are results of the model.
\<close>

datatype error = AssertionFailed | OutOfRange

section \<open>RemoveGhosts\<close>

definition RemoveGhosts_body :: "int \<times> int \<Rightarrow> TileMap \<Rightarrow> TileMap" where
  "RemoveGhosts_body p output =
     (case p of (x, y) \<Rightarrow>
        let tile = cell_at output x y in
        if tile AND kGhostCollisionTile \<noteq> 0
        then cell_set output x y (tile AND NOT (kGhostCollisionTile OR kCollisionMask))
        else output)"

definition RemoveGhosts :: "int \<Rightarrow> int \<Rightarrow> TileMap \<Rightarrow> bool \<times> TileMap" where
  "RemoveGhosts grid_width grid_height output =
     (True, fold RemoveGhosts_body (raster grid_width grid_height) output)"

section \<open>CheckTerminalReactions\<close>

text \<open>
  The function only reads the grid. Its state is the success flag and the reports printed
  so far; the body below is one iteration of the inner loop.
\<close>

definition CheckTerminalReactions_body ::
  "int \<Rightarrow> int \<Rightarrow> TileMap \<Rightarrow> int \<times> int \<Rightarrow> bool \<times> diagnostic list \<Rightarrow> bool \<times> diagnostic list" where
  "CheckTerminalReactions_body grid_width grid_height tiles p st =
     (case p of (x, y) \<Rightarrow> case st of (success_status, log) \<Rightarrow>
        if cell_at tiles x y AND kTerminalReaction \<noteq> 0 then
          let adjacent_to_chain_reaction =
                ((y > 0 \<and> cell_at tiles x (y - 1) AND kChainReaction \<noteq> 0) \<or>
                 (y < grid_height - 1 \<and> cell_at tiles x (y + 1) AND kChainReaction \<noteq> 0) \<or>
                 (x > 0 \<and> cell_at tiles (x - 1) y AND kChainReaction \<noteq> 0) \<or>
                 (x < grid_width - 1 \<and> cell_at tiles (x + 1) y AND kChainReaction \<noteq> 0))
          in if \<not> adjacent_to_chain_reaction
             then (False,
                   log @ [TerminalNeedsChain y x (x * kTileSize + kTileSize div 2)
                                                 (y * kTileSize + kTileSize div 2)])
             else (success_status, log)
        else (success_status, log))"

definition CheckTerminalReactions :: "int \<Rightarrow> int \<Rightarrow> TileMap \<Rightarrow> bool \<times> diagnostic list" where
  "CheckTerminalReactions grid_width grid_height tiles =
     fold (CheckTerminalReactions_body grid_width grid_height tiles)
          (raster grid_width grid_height) (True, [])"

text \<open>
  The property the function is documented to check, stated on its own: a cell has a chain
  reaction neighbour when one of the four orthogonal positions lies in the grid and carries
  the chain reaction flag.
\<close>

definition has_chain_neighbour :: "int \<Rightarrow> int \<Rightarrow> TileMap \<Rightarrow> int \<Rightarrow> int \<Rightarrow> bool" where
  "has_chain_neighbour w h tiles x y =
     list_ex (\<lambda>(dx, dy). in_grid w h (x + dx) (y + dy) \<and>
                          cell_at tiles (x + dx) (y + dy) AND kChainReaction \<noteq> 0)
             [(0, - 1), (0, 1), (- 1, 0), (1, 0)]"

definition unreachable_terminal :: "int \<Rightarrow> int \<Rightarrow> TileMap \<Rightarrow> int \<times> int \<Rightarrow> bool" where
  "unreachable_terminal w h tiles p =
     (case p of (x, y) \<Rightarrow>
        cell_at tiles x y AND kTerminalReaction \<noteq> 0 \<and> \<not> has_chain_neighbour w h tiles x y)"

definition terminal_diagnostic :: "int \<times> int \<Rightarrow> diagnostic" where
  "terminal_diagnostic p =
     (case p of (x, y) \<Rightarrow>
        TerminalNeedsChain y x (x * kTileSize + kTileSize div 2) (y * kTileSize + kTileSize div 2))"

section \<open>IndexOfLastRow and WriteTileTable\<close>

text \<open>
  \<open>IndexOfLastRow\<close> walks \<open>row\<close> from \<open>size - 1\<close> down while \<open>row > 0\<close> and returns
  the first row holding a cell other than \<open>kBlankTile\<close>; row 0 is never inspected.
\<close>

fun IndexOfLastRow_from :: "TileMap \<Rightarrow> nat \<Rightarrow> int" where
  "IndexOfLastRow_from tiles 0 = 0"
| "IndexOfLastRow_from tiles (Suc n) =
     (if list_ex (\<lambda>cell. cell \<noteq> kBlankTile) (tiles ! Suc n) then int (Suc n)
      else IndexOfLastRow_from tiles n)"

definition IndexOfLastRow :: "TileMap \<Rightarrow> int" where
  "IndexOfLastRow tiles = IndexOfLastRow_from tiles (length tiles - 1)"

text \<open>
  The local class \<open>TableWriter\<close>. The text file it prints to is modelled by the list of
  the integers passed to \<open>fprintf\<close>, in order (\<open>written\<close>); tabs and line breaks are
  layout only, \<open>text_row_size_\<close> counts the values on the current text line.
  The packed pair \<open>(value_pair_buffer_ << 16) | tile\<close> is computed on \<open>int\<close>: for indices
  up to \<open>kMaxTileCount\<close> it stays below \<open>2^31\<close>, so the 32-bit value is the same.
\<close>

record TableWriter =
  written :: "int list"
  text_row_size :: int
  value_pair_buffer :: int

definition Write :: "int \<Rightarrow> TableWriter \<Rightarrow> TableWriter" where
  "Write v tw =
     (let tw1 = tw\<lparr>written := written tw @ [v], text_row_size := text_row_size tw + 1\<rparr>
      in if text_row_size tw1 = 10 then tw1\<lparr>text_row_size := 0\<rparr> else tw1)"

definition FlushBufferedNonblankValue :: "TableWriter \<Rightarrow> TableWriter" where
  "FlushBufferedNonblankValue tw =
     (if value_pair_buffer tw \<noteq> 0
      then (Write (value_pair_buffer tw) tw)\<lparr>value_pair_buffer := 0\<rparr>
      else tw)"

definition WriteBlankRun :: "int \<Rightarrow> TableWriter \<Rightarrow> TableWriter" where
  "WriteBlankRun count tw = Write (- count) (FlushBufferedNonblankValue tw)"

definition WriteNonblankTile :: "int \<Rightarrow> TableWriter \<Rightarrow> TableWriter" where
  "WriteNonblankTile tile tw =
     (if value_pair_buffer tw = 0 then tw\<lparr>value_pair_buffer := tile\<rparr>
      else (Write (push_bit 16 (value_pair_buffer tw) OR tile) tw)\<lparr>value_pair_buffer := 0\<rparr>)"

definition Flush :: "TableWriter \<Rightarrow> TableWriter" where
  "Flush tw = FlushBufferedNonblankValue tw"

text \<open>
  One iteration of the scanning loop of \<open>WriteTileTable\<close>, on the pair of
  \<open>blank_count\<close> and the writer, and the loop over the scanned cells.
\<close>

definition scan_cell :: "int \<Rightarrow> int \<times> TableWriter \<Rightarrow> error + int \<times> TableWriter" where
  "scan_cell cell st =
     (case st of (blank_count, output_table) \<Rightarrow>
        if cell = kBlankTile then
          (if blank_count < 0x7fff then Inr (blank_count + 1, output_table)
           else Inl AssertionFailed)
        else if blank_count > 0
          then Inr (0, WriteNonblankTile cell (WriteBlankRun blank_count output_table))
          else Inr (blank_count, WriteNonblankTile cell output_table))"

fun scan_cells :: "int list \<Rightarrow> int \<times> TableWriter \<Rightarrow> error + int \<times> TableWriter" where
  "scan_cells [] st = Inr st"
| "scan_cells (cell # cells) st =
     (case scan_cell cell st of Inl e \<Rightarrow> Inl e | Inr st' \<Rightarrow> scan_cells cells st')"

text \<open>
  \<open>WriteTileTable\<close> returns the first entry of the table (the declared number of cells)
  and the entries that follow it. The rows \<open>tiles[0 .. scan_limit - 1]\<close> are scanned in
  order, each from left to right.
\<close>

definition scanned_cells :: "TileMap \<Rightarrow> int list" where
  "scanned_cells tiles = concat (take (nat (IndexOfLastRow tiles + 1)) tiles)"

definition WriteTileTable :: "TileMap \<Rightarrow> error + int \<times> int list" where
  "WriteTileTable tiles =
     (if tiles = [] then Inl OutOfRange
      else
        let scan_limit = IndexOfLastRow tiles + 1;
            declared = scan_limit * int (length (hd tiles))
        in case scan_cells (scanned_cells tiles)
                  (0, \<lparr>written = [], text_row_size = 0, value_pair_buffer = 0\<rparr>) of
             Inl e \<Rightarrow> Inl e
           | Inr (blank_count, output_table) \<Rightarrow>
               Inr (declared,
                    written (Flush (if blank_count > 0
                                    then WriteBlankRun blank_count output_table
                                    else output_table))))"

text \<open>
  Modelled from the spec: the unpacker is the game's loader, which is not under src/.
  A negative value expands to that many blank cells; a value of at least \<open>2^16\<close> splits
  into two indices, the high half first; any other value is a single index.
\<close>

definition unpack_entry :: "int \<Rightarrow> int list" where
  "unpack_entry v =
     (if v < 0 then replicate (nat (- v)) kBlankTile
      else if v \<ge> 2 ^ 16 then [drop_bit 16 v, v AND 0xffff]
      else [v])"

definition unpack :: "int list \<Rightarrow> int list" where
  "unpack vs = concat (map unpack_entry vs)"

text \<open>
  The length of the longest run of consecutive blank cells of a sequence, counting \<open>n\<close>
  blank cells already seen before it.
\<close>

fun longest_blank_run :: "nat \<Rightarrow> int list \<Rightarrow> nat" where
  "longest_blank_run n [] = n"
| "longest_blank_run n (c # cs) =
     (if c = kBlankTile then longest_blank_run (Suc n) cs
      else max n (longest_blank_run 0 cs))"

definition art_cell :: "int \<Rightarrow> bool" where
  "art_cell c = (c = kBlankTile \<or> (1 \<le> c \<and> c \<le> kMaxTileCount))"

text \<open>
  The state of the scanning loop stands for a sequence of cells: what the entries written
  so far unpack to, then the index waiting in the pair buffer, then the blank cells
  counted and not yet written.
\<close>

definition pending :: "int \<times> TableWriter \<Rightarrow> int list" where
  "pending st =
     (case st of (blank_count, tw) \<Rightarrow>
        (if value_pair_buffer tw \<noteq> 0 then [value_pair_buffer tw] else []) @
        replicate (nat blank_count) kBlankTile)"

definition decoded :: "int \<times> TableWriter \<Rightarrow> int list" where
  "decoded st = unpack (written (snd st)) @ pending st"

definition scan_ok :: "int \<times> TableWriter \<Rightarrow> bool" where
  "scan_ok st =
     (case st of (blank_count, tw) \<Rightarrow>
        0 \<le> blank_count \<and> blank_count \<le> 0x7fff \<and>
        (value_pair_buffer tw = 0 \<or> (1 \<le> value_pair_buffer tw \<and> value_pair_buffer tw \<le> kMaxTileCount)))"

section \<open>IsEmptyOrBreakable, AssignMountAttributes and DetectMountPoints\<close>

definition IsEmptyOrBreakable :: "TileMap \<Rightarrow> int \<Rightarrow> int \<Rightarrow> int \<Rightarrow> int \<Rightarrow> bool" where
  "IsEmptyOrBreakable tile_map grid_width grid_height x y =
     (if x < 0 \<or> x \<ge> grid_width \<or> y < 0 \<or> y \<ge> grid_height then False
      else let tile_bits = cell_at tile_map x y
           in tile_bits AND kCollisionMask = kCollisionNone \<or> tile_bits AND kBreakableTile \<noteq> 0)"

text \<open>
  The three macros of \<open>AssignMountAttributes\<close>, with the variables they capture
  (\<open>output\<close>, the grid size, \<open>x\<close>, \<open>y\<close> and the normal vector) as parameters.
\<close>

definition NEIGHBOR_COLLISION ::
  "TileMap \<Rightarrow> int \<Rightarrow> int \<Rightarrow> int \<Rightarrow> int \<Rightarrow> int \<Rightarrow> int \<Rightarrow> int" where
  "NEIGHBOR_COLLISION output grid_width grid_height x y dx dy =
     (if x + dx \<ge> 0 \<and> x + dx < grid_width \<and> y + dy \<ge> 0 \<and> y + dy < grid_height
      then cell_at output (x + dx) (y + dy) AND kCollisionMask
      else - 1)"

definition IS_EMPTY_OR_BREAKABLE ::
  "TileMap \<Rightarrow> int \<Rightarrow> int \<Rightarrow> int \<Rightarrow> int \<Rightarrow> int \<Rightarrow> int \<Rightarrow> bool" where
  "IS_EMPTY_OR_BREAKABLE output grid_width grid_height x y dx dy =
     IsEmptyOrBreakable output grid_width grid_height (x + dx) (y + dy)"

definition HAS_ENOUGH_CLEARANCE ::
  "TileMap \<Rightarrow> int \<Rightarrow> int \<Rightarrow> int \<Rightarrow> int \<Rightarrow> int \<Rightarrow> int \<Rightarrow> int \<Rightarrow> int \<Rightarrow> bool" where
  "HAS_ENOUGH_CLEARANCE output grid_width grid_height x y normal_dx normal_dy base_x base_y =
     (IS_EMPTY_OR_BREAKABLE output grid_width grid_height x y
        (base_x + normal_dx) (base_y + normal_dy) \<and>
      IS_EMPTY_OR_BREAKABLE output grid_width grid_height x y
        (base_x + normal_dx * 2) (base_y + normal_dy * 2))"

definition AssignMountAttributes ::
  "int \<Rightarrow> int \<Rightarrow> int \<Rightarrow> int \<Rightarrow> int \<Rightarrow> int \<Rightarrow> int \<Rightarrow> TileMap \<Rightarrow> TileMap" where
  "AssignMountAttributes mount_mask normal_dx normal_dy grid_width grid_height x y output =
     (if \<not> IS_EMPTY_OR_BREAKABLE output grid_width grid_height x y normal_dx normal_dy \<or>
         \<not> IS_EMPTY_OR_BREAKABLE output grid_width grid_height x y (normal_dx * 2) (normal_dy * 2)
      then output
      else
        let post_x = normal_dy; post_y = - normal_dx;
            pre_x = - normal_dy; pre_y = normal_dx;
            c = cell_at output x y AND kCollisionMask
        in
        if NEIGHBOR_COLLISION output grid_width grid_height x y pre_x pre_y = c \<and>
           NEIGHBOR_COLLISION output grid_width grid_height x y post_x post_y = c \<and>
           HAS_ENOUGH_CLEARANCE output grid_width grid_height x y normal_dx normal_dy pre_x pre_y \<and>
           HAS_ENOUGH_CLEARANCE output grid_width grid_height x y normal_dx normal_dy post_x post_y
        then
          if normal_dx = 0 \<or> normal_dy = 0
          then cell_set output x y (cell_at output x y OR mount_mask)
          else
            let ky = - normal_dy; kx = - normal_dx in
            if HAS_ENOUGH_CLEARANCE output grid_width grid_height x y normal_dx normal_dy
                 (pre_x + kx) pre_y \<and>
               HAS_ENOUGH_CLEARANCE output grid_width grid_height x y normal_dx normal_dy
                 pre_x (pre_y + ky) \<and>
               HAS_ENOUGH_CLEARANCE output grid_width grid_height x y normal_dx normal_dy
                 (post_x + kx) post_y \<and>
               HAS_ENOUGH_CLEARANCE output grid_width grid_height x y normal_dx normal_dy
                 post_x (post_y + ky)
            then cell_set output x y (cell_at output x y OR mount_mask)
            else output
        else output)"

text \<open>
  One iteration of the loop of \<open>DetectMountPoints\<close>. The \<open>default\<close> branch of the switch
  is \<open>assert(false)\<close>: collision codes 6 and 7 abort the tool.
\<close>

definition DetectMountPoints_body ::
  "int \<Rightarrow> int \<Rightarrow> int \<times> int \<Rightarrow> TileMap \<Rightarrow> error + TileMap" where
  "DetectMountPoints_body grid_width grid_height p output =
     (case p of (x, y) \<Rightarrow>
        if cell_at output x y AND kBreakableTile \<noteq> 0 then Inr output
        else
          let c = cell_at output x y AND kCollisionMask in
          if c = kCollisionNone then Inr output
          else if c = kCollisionSquare then
            Inr (AssignMountAttributes kMountRight 1 0 grid_width grid_height x y
                (AssignMountAttributes kMountLeft (- 1) 0 grid_width grid_height x y
                (AssignMountAttributes kMountDown 0 1 grid_width grid_height x y
                (AssignMountAttributes kMountUp 0 (- 1) grid_width grid_height x y output))))
          else if c = kCollisionUpLeft then
            Inr (AssignMountAttributes (kMountUp OR kMountLeft) (- 1) (- 1)
                   grid_width grid_height x y output)
          else if c = kCollisionUpRight then
            Inr (AssignMountAttributes (kMountUp OR kMountRight) 1 (- 1)
                   grid_width grid_height x y output)
          else if c = kCollisionDownLeft then
            Inr (AssignMountAttributes (kMountDown OR kMountLeft) (- 1) 1
                   grid_width grid_height x y output)
          else if c = kCollisionDownRight then
            Inr (AssignMountAttributes (kMountDown OR kMountRight) 1 1
                   grid_width grid_height x y output)
          else Inl AssertionFailed)"

fun DetectMountPoints_loop ::
  "int \<Rightarrow> int \<Rightarrow> (int \<times> int) list \<Rightarrow> TileMap \<Rightarrow> error + TileMap" where
  "DetectMountPoints_loop grid_width grid_height [] output = Inr output"
| "DetectMountPoints_loop grid_width grid_height (p # ps) output =
     (case DetectMountPoints_body grid_width grid_height p output of
        Inl e \<Rightarrow> Inl e
      | Inr output' \<Rightarrow> DetectMountPoints_loop grid_width grid_height ps output')"

definition DetectMountPoints :: "int \<Rightarrow> int \<Rightarrow> TileMap \<Rightarrow> error + TileMap" where
  "DetectMountPoints grid_width grid_height output =
     DetectMountPoints_loop grid_width grid_height (raster grid_width grid_height) output"

text \<open>
  The conditions the claims about mounting speak of. \<open>outward_clear\<close>: the two cells
  stepping outward from \<open>(x, y)\<close> along \<open>(dx, dy)\<close> are both empty or breakable.
  \<open>lateral_square\<close>: the neighbour at offset \<open>(lx, ly)\<close> lies in the grid, has the square
  collision shape, and has its own two outward cells clear.
  \<open>square_mountable\<close>: the whole condition under which a square cell is given the mount
  bit of the direction \<open>(dx, dy)\<close>; the lateral neighbours are the two rotations of the
  direction by a quarter turn.
\<close>

definition outward_clear :: "TileMap \<Rightarrow> int \<Rightarrow> int \<Rightarrow> int \<Rightarrow> int \<Rightarrow> int \<Rightarrow> int \<Rightarrow> bool" where
  "outward_clear g w h x y dx dy =
     (IsEmptyOrBreakable g w h (x + dx) (y + dy) \<and>
      IsEmptyOrBreakable g w h (x + 2 * dx) (y + 2 * dy))"

definition lateral_square ::
  "TileMap \<Rightarrow> int \<Rightarrow> int \<Rightarrow> int \<Rightarrow> int \<Rightarrow> int \<Rightarrow> int \<Rightarrow> int \<Rightarrow> int \<Rightarrow> bool" where
  "lateral_square g w h x y dx dy lx ly =
     (in_grid w h (x + lx) (y + ly) \<and>
      cell_at g (x + lx) (y + ly) AND kCollisionMask = kCollisionSquare \<and>
      outward_clear g w h (x + lx) (y + ly) dx dy)"

definition square_mountable :: "TileMap \<Rightarrow> int \<Rightarrow> int \<Rightarrow> int \<Rightarrow> int \<Rightarrow> int \<Rightarrow> int \<Rightarrow> bool" where
  "square_mountable g w h x y dx dy =
     (outward_clear g w h x y dx dy \<and>
      lateral_square g w h x y dx dy (- dy) dx \<and>
      lateral_square g w h x y dx dy dy (- dx))"

text \<open>
  The four axis directions with their mount bits; \<open>y\<close> grows downwards, so up is
  \<open>(0, - 1)\<close>.
\<close>

definition axis_directions :: "(int \<times> int \<times> int) list" where
  "axis_directions =
     [(kMountUp, 0, - 1), (kMountDown, 0, 1), (kMountLeft, - 1, 0), (kMountRight, 1, 0)]"

text \<open>
  The collision codes the annotation pass produces are 0 to 5; a breakable cell is skipped
  before the switch over its code.
\<close>

definition known_shape :: "int \<Rightarrow> bool" where
  "known_shape t = (t AND kBreakableTile \<noteq> 0 \<or> t AND kCollisionMask \<le> 5)"

text \<open>
  Two notions for the proofs about the mounting pass. \<open>stable\<close>: two grids of the same
  size agree on every bit outside the mount flags. \<open>mount_condition\<close>: the conjunction of
  the tests under which \<open>AssignMountAttributes\<close> writes the mount mask.
\<close>

definition stable :: "int \<Rightarrow> int \<Rightarrow> TileMap \<Rightarrow> TileMap \<Rightarrow> bool" where
  "stable w h g g' =
     (grid_ok w h g \<and> grid_ok w h g' \<and>
      (\<forall>x y. in_grid w h x y \<longrightarrow>
         cell_at g' x y AND NOT kMountMask = cell_at g x y AND NOT kMountMask))"

definition mount_condition :: "TileMap \<Rightarrow> int \<Rightarrow> int \<Rightarrow> int \<Rightarrow> int \<Rightarrow> int \<Rightarrow> int \<Rightarrow> bool" where
  "mount_condition g w h x y dx dy =
     (IS_EMPTY_OR_BREAKABLE g w h x y dx dy \<and>
      IS_EMPTY_OR_BREAKABLE g w h x y (dx * 2) (dy * 2) \<and>
      NEIGHBOR_COLLISION g w h x y (- dy) dx = cell_at g x y AND kCollisionMask \<and>
      NEIGHBOR_COLLISION g w h x y dy (- dx) = cell_at g x y AND kCollisionMask \<and>
      HAS_ENOUGH_CLEARANCE g w h x y dx dy (- dy) dx \<and>
      HAS_ENOUGH_CLEARANCE g w h x y dx dy dy (- dx) \<and>
      (dx = 0 \<or> dy = 0 \<or>
       (HAS_ENOUGH_CLEARANCE g w h x y dx dy (- dy + - dx) dx \<and>
        HAS_ENOUGH_CLEARANCE g w h x y dx dy (- dy) (dx + - dy) \<and>
        HAS_ENOUGH_CLEARANCE g w h x y dx dy (dy + - dx) (- dx) \<and>
        HAS_ENOUGH_CLEARANCE g w h x y dx dy dy (- dx + - dy))))"

section \<open>AdjustObstacles\<close>

text \<open>
  The macros of \<open>AdjustObstacles\<close>, with \<open>output\<close>, \<open>x\<close> and \<open>y\<close> as parameters. They
  read the neighbour without a range check; the loop uses them only after the test that the
  cell is not on the border of the grid.
\<close>

definition METADATA_BITS :: "TileMap \<Rightarrow> int \<Rightarrow> int \<Rightarrow> int \<Rightarrow> int \<Rightarrow> int" where
  "METADATA_BITS output x y dx dy = cell_at output (x + dx) (y + dy)"

definition IS_BREAKABLE :: "TileMap \<Rightarrow> int \<Rightarrow> int \<Rightarrow> int \<Rightarrow> int \<Rightarrow> bool" where
  "IS_BREAKABLE output x y dx dy = (METADATA_BITS output x y dx dy AND kBreakableTile \<noteq> 0)"

definition IS_EMPTY_OR_BREAKABLE_nb :: "TileMap \<Rightarrow> int \<Rightarrow> int \<Rightarrow> int \<Rightarrow> int \<Rightarrow> bool" where
  "IS_EMPTY_OR_BREAKABLE_nb output x y dx dy =
     (METADATA_BITS output x y dx dy AND kCollisionMask = kCollisionNone \<or>
      IS_BREAKABLE output x y dx dy)"

definition IS_UNBREAKABLE_SQUARE :: "TileMap \<Rightarrow> int \<Rightarrow> int \<Rightarrow> int \<Rightarrow> int \<Rightarrow> bool" where
  "IS_UNBREAKABLE_SQUARE output x y dx dy =
     (METADATA_BITS output x y dx dy AND (kBreakableTile OR kCollisionMask) = kCollisionSquare)"

text \<open>The local constant \<open>empty_count\<close> of the loop body.\<close>

definition empty_count :: "TileMap \<Rightarrow> int \<Rightarrow> int \<Rightarrow> int" where
  "empty_count g x y =
     (if IS_EMPTY_OR_BREAKABLE_nb g x y (- 1) 0 then 1 else 0) +
     (if IS_EMPTY_OR_BREAKABLE_nb g x y 1 0 then 1 else 0) +
     (if IS_EMPTY_OR_BREAKABLE_nb g x y 0 (- 1) then 1 else 0) +
     (if IS_EMPTY_OR_BREAKABLE_nb g x y 0 1 then 1 else 0)"

text \<open>
  The state of the loop: the grid, \<open>success_status\<close>, the counter
  \<open>collectible_obstacles\<close>, and the reports printed so far.
\<close>

record AdjustState =
  out_grid :: TileMap
  success_status :: bool
  collectible_obstacles :: int
  reports :: "diagnostic list"

text \<open>A \<open>printf\<close> of a report followed by \<open>success_status = false\<close>.\<close>

definition report :: "diagnostic \<Rightarrow> AdjustState \<Rightarrow> AdjustState" where
  "report d st = st\<lparr>success_status := False, reports := reports st @ [d]\<rparr>"

text \<open>The two assignments \<open>*tile &= ~kCollectibleTileMask; *tile |= direction\<close>.\<close>

definition set_direction :: "int \<Rightarrow> int \<Rightarrow> int \<Rightarrow> AdjustState \<Rightarrow> AdjustState" where
  "set_direction x y direction st =
     st\<lparr>out_grid := cell_set (out_grid st) x y
            ((cell_at (out_grid st) x y AND NOT kCollectibleTileMask) OR direction)\<rparr>"

text \<open>The end of an iteration that resolved a collectible: count it and check the cap.\<close>

definition count_collectible :: "int \<Rightarrow> int \<Rightarrow> AdjustState \<Rightarrow> AdjustState" where
  "count_collectible x y st =
     (let st' = st\<lparr>collectible_obstacles := collectible_obstacles st + 1\<rparr>
      in if collectible_obstacles st' > kMaxCollectibleObstacles
         then report (TooManyCollectibles y x (x * kTileSize + kTileSize div 2)
                                             (y * kTileSize + kTileSize div 2)) st'
         else st')"

definition AdjustObstacles_body :: "int \<Rightarrow> int \<Rightarrow> int \<times> int \<Rightarrow> AdjustState \<Rightarrow> AdjustState" where
  "AdjustObstacles_body grid_width grid_height p st =
     (case p of (x, y) \<Rightarrow>
        let tile = cell_at (out_grid st) x y;
            px = x * kTileSize + kTileSize div 2;
            py = y * kTileSize + kTileSize div 2;
            st1 = (if tile AND kBreakableTile \<noteq> 0 \<and>
                      tile AND (kCollisionMask OR kChainReaction OR kTerminalReaction) = 0
                   then report (BreakableNeedsCollision y x px py) st else st)
        in
        if tile AND kCollectibleTileMask = 0 then st1
        else if tile AND NOT (kCollectibleTileMask OR kTerminalReaction) \<noteq> 0
        then report (CollectibleOverlap y x px py) st1
        else if x = 0 \<or> x = grid_width - 1 \<or> y = 0 \<or> y = grid_height - 1
        then report (CollectibleNearEdge y x px py) st1
        else
          let g = out_grid st; empty_count = empty_count g x y in
          if empty_count = 3 then
            if IS_UNBREAKABLE_SQUARE g x y 0 1
            then count_collectible x y (set_direction x y kCollectibleTileUp st1)
            else if IS_UNBREAKABLE_SQUARE g x y 0 (- 1)
            then count_collectible x y (set_direction x y kCollectibleTileDown st1)
            else if IS_UNBREAKABLE_SQUARE g x y 1 0
            then count_collectible x y (set_direction x y kCollectibleTileLeft st1)
            else if IS_UNBREAKABLE_SQUARE g x y (- 1) 0
            then count_collectible x y (set_direction x y kCollectibleTileRight st1)
            else report (CollectibleNeedsSquare y x px py) st1
          else if empty_count = 4 then
            if IS_BREAKABLE g x y 0 1 \<and> \<not> IS_BREAKABLE g x y 0 (- 1) \<and>
               \<not> IS_BREAKABLE g x y 1 0 \<and> \<not> IS_BREAKABLE g x y (- 1) 0
            then count_collectible x y (set_direction x y kCollectibleTileUp st1)
            else if \<not> IS_BREAKABLE g x y 0 1 \<and> IS_BREAKABLE g x y 0 (- 1) \<and>
                    \<not> IS_BREAKABLE g x y 1 0 \<and> \<not> IS_BREAKABLE g x y (- 1) 0
            then count_collectible x y (set_direction x y kCollectibleTileDown st1)
            else if \<not> IS_BREAKABLE g x y 0 1 \<and> \<not> IS_BREAKABLE g x y 0 (- 1) \<and>
                    IS_BREAKABLE g x y 1 0 \<and> \<not> IS_BREAKABLE g x y (- 1) 0
            then count_collectible x y (set_direction x y kCollectibleTileLeft st1)
            else if \<not> IS_BREAKABLE g x y 0 1 \<and> \<not> IS_BREAKABLE g x y 0 (- 1) \<and>
                    \<not> IS_BREAKABLE g x y 1 0 \<and> IS_BREAKABLE g x y (- 1) 0
            then count_collectible x y (set_direction x y kCollectibleTileRight st1)
            else report (CollectibleNeedsOneWall y x px py) st1
          else report (CollectibleNeedsThreeEmpty y x px py) st1)"

definition AdjustObstacles_loop :: "int \<Rightarrow> int \<Rightarrow> TileMap \<Rightarrow> AdjustState" where
  "AdjustObstacles_loop grid_width grid_height g =
     fold (AdjustObstacles_body grid_width grid_height) (raster grid_width grid_height)
       \<lparr>out_grid = g, success_status = True, collectible_obstacles = 0, reports = []\<rparr>"

text \<open>
  \<open>AdjustObstacles\<close> returns \<open>success_status\<close>; the model returns with it the grid as the
  function leaves it and the reports it printed.
\<close>

definition AdjustObstacles :: "int \<Rightarrow> int \<Rightarrow> TileMap \<Rightarrow> bool \<times> TileMap \<times> diagnostic list" where
  "AdjustObstacles grid_width grid_height g =
     (let st = AdjustObstacles_loop grid_width grid_height g
      in (success_status st, out_grid st, reports st))"

text \<open>
  The rule for a collectible's direction, stated on its own. The three tests on a
  neighbour's bits; a table pairing each direction bit with the offset of the neighbour it
  is chosen for; and the choice: with exactly three neighbours empty or breakable, the first
  entry of the table whose neighbour is an unbreakable square; with all four empty or
  breakable, the entry of the only breakable neighbour; otherwise none.
\<close>

definition empty_or_breakable :: "int \<Rightarrow> bool" where
  "empty_or_breakable t = (t AND kCollisionMask = kCollisionNone \<or> t AND kBreakableTile \<noteq> 0)"

definition unbreakable_square :: "int \<Rightarrow> bool" where
  "unbreakable_square t = (t AND (kBreakableTile OR kCollisionMask) = kCollisionSquare)"

definition breakable :: "int \<Rightarrow> bool" where
  "breakable t = (t AND kBreakableTile \<noteq> 0)"

definition resolve_with :: "(int \<times> int \<times> int) list \<Rightarrow> TileMap \<Rightarrow> int \<Rightarrow> int \<Rightarrow> int option" where
  "resolve_with table g x y =
     (let nb = (\<lambda>e. cell_at g (x + fst (snd e)) (y + snd (snd e)));
          clear = filter (\<lambda>e. empty_or_breakable (nb e)) table;
          walls = filter (\<lambda>e. unbreakable_square (nb e)) table;
          breakables = filter (\<lambda>e. breakable (nb e)) table
      in if length clear = 3 then (case walls of [] \<Rightarrow> None | e # _ \<Rightarrow> Some (fst e))
         else if length clear = 4 then (case breakables of [e] \<Rightarrow> Some (fst e) | _ \<Rightarrow> None)
         else None)"

text \<open>
  \<open>toward_wall\<close> is the table of the specification's wording: the direction points at
  the wall, tried in the order up, down, left, right (\<open>y\<close> grows downwards).
  \<open>away_from_wall\<close> is the table the comment on the collectible bit masks describes: the
  bit names the normal vector, the side the player approaches from, opposite to the wall.
\<close>

definition toward_wall :: "(int \<times> int \<times> int) list" where
  "toward_wall =
     [(kCollectibleTileUp, 0, - 1), (kCollectibleTileDown, 0, 1),
      (kCollectibleTileLeft, - 1, 0), (kCollectibleTileRight, 1, 0)]"

definition away_from_wall :: "(int \<times> int \<times> int) list" where
  "away_from_wall =
     [(kCollectibleTileUp, 0, 1), (kCollectibleTileDown, 0, - 1),
      (kCollectibleTileLeft, 1, 0), (kCollectibleTileRight, - 1, 0)]"

text \<open>
  A collectible cell is placed well when it carries no bit besides the collectible and
  terminal reaction bits, is not on the border, and the rule gives it a direction.
  \<open>placement_violation\<close> is the report for a cell that is not, and
  \<open>collectible_report_at\<close> recognises the placement reports about the cell \<open>(x, y)\<close>.
\<close>

definition placement_ok :: "int \<Rightarrow> int \<Rightarrow> TileMap \<Rightarrow> int \<Rightarrow> int \<Rightarrow> bool" where
  "placement_ok w h g x y =
     (cell_at g x y AND NOT (kCollectibleTileMask OR kTerminalReaction) = 0 \<and>
      0 < x \<and> x < w - 1 \<and> 0 < y \<and> y < h - 1 \<and>
      resolve_with away_from_wall g x y \<noteq> None)"

definition placement_violation :: "int \<Rightarrow> int \<Rightarrow> TileMap \<Rightarrow> int \<Rightarrow> int \<Rightarrow> diagnostic" where
  "placement_violation w h g x y =
     (let px = x * kTileSize + kTileSize div 2;
          py = y * kTileSize + kTileSize div 2;
          clear = filter (\<lambda>e. empty_or_breakable (cell_at g (x + fst (snd e)) (y + snd (snd e))))
                    away_from_wall
      in if cell_at g x y AND NOT (kCollectibleTileMask OR kTerminalReaction) \<noteq> 0
         then CollectibleOverlap y x px py
         else if x = 0 \<or> x = w - 1 \<or> y = 0 \<or> y = h - 1 then CollectibleNearEdge y x px py
         else if length clear = 3 then CollectibleNeedsSquare y x px py
         else if length clear = 4 then CollectibleNeedsOneWall y x px py
         else CollectibleNeedsThreeEmpty y x px py)"

definition collectible_report_at :: "int \<Rightarrow> int \<Rightarrow> diagnostic \<Rightarrow> bool" where
  "collectible_report_at x y d =
     (let px = x * kTileSize + kTileSize div 2;
          py = y * kTileSize + kTileSize div 2
      in d \<in> set [CollectibleOverlap y x px py, CollectibleNearEdge y x px py,
                    CollectibleNeedsSquare y x px py, CollectibleNeedsOneWall y x px py,
                    CollectibleNeedsThreeEmpty y x px py])"

text \<open>
  For the proofs: the test on breakable tiles that opens every iteration, and the relation
  between two grids of the same size that agree outside the collectible direction bits.
\<close>

definition breakable_check :: "int \<Rightarrow> int \<Rightarrow> AdjustState \<Rightarrow> AdjustState" where
  "breakable_check x y st =
     (let tile = cell_at (out_grid st) x y in
      if tile AND kBreakableTile \<noteq> 0 \<and>
         tile AND (kCollisionMask OR kChainReaction OR kTerminalReaction) = 0
      then report (BreakableNeedsCollision y x (x * kTileSize + kTileSize div 2)
                                              (y * kTileSize + kTileSize div 2)) st
      else st)"

definition stable_c :: "int \<Rightarrow> int \<Rightarrow> TileMap \<Rightarrow> TileMap \<Rightarrow> bool" where
  "stable_c w h g g' =
     (grid_ok w h g \<and> grid_ok w h g' \<and>
      (\<forall>x y. in_grid w h x y \<longrightarrow>
         cell_at g' x y AND NOT kCollectibleTileMask = cell_at g x y AND NOT kCollectibleTileMask))"

section \<open>Input images and pixel blocks\<close>

text \<open>
  \<open>InputImage\<close> holds what the tool reads of a \<open>png_image\<close> and its pixel buffer:
  the width and height in pixels, the format the image was decoded to, and the bytes.
  \<open>bytes_per_pixel\<close> is \<open>PNG_IMAGE_SAMPLE_SIZE\<close> of the two formats.
\<close>

datatype png_format = PNG_FORMAT_GA | PNG_FORMAT_RGBA

record InputImage =
  image_width :: nat
  image_height :: nat
  image_format :: png_format
  pixels :: "8 word list"




text \<open>
  \<open>GenericBlock<bpp>::GetPixels\<close>: the \<open>kTileSize\<close> rows of the block, each the
  \<open>kTileSize * bpp\<close> bytes of the row inside the buffer.
\<close>

definition GetPixels :: "nat \<Rightarrow> InputImage \<Rightarrow> int \<Rightarrow> int \<Rightarrow> 8 word list list" where
  "GetPixels bpp source x y =
     (let row_size = image_width source * bpp;
          source_pixels = nat y * row_size + nat x * bpp
      in map (\<lambda>i. take (nat kTileSize * bpp) (drop (source_pixels + i * row_size) (pixels source)))
           [0..<nat kTileSize])"

text \<open>
  \<open>ResizeOutput\<close>: \<open>std::vector::resize\<close> keeps the leading elements and appends
  value-initialised ones.
\<close>

definition resize :: "nat \<Rightarrow> 'a \<Rightarrow> 'a list \<Rightarrow> 'a list" where
  "resize n d xs = take n xs @ replicate (n - length xs) d"

definition ResizeOutput :: "InputImage \<Rightarrow> TileMap \<Rightarrow> TileMap" where
  "ResizeOutput input output =
     (let width = image_width input div nat kTileSize;
          height = image_height input div nat kTileSize
      in map (resize width 0) (resize height [] output))"

text \<open>The grid size of an image: its sides divided by the tile size.\<close>

definition grid_width_of :: "InputImage \<Rightarrow> int" where
  "grid_width_of input = int (image_width input) div kTileSize"

definition grid_height_of :: "InputImage \<Rightarrow> int" where
  "grid_height_of input = int (image_height input) div kTileSize"

section \<open>ProcessAnnotations\<close>























section \<open>CheckStartingPoints, CheckTeleportPoints and ProcessMetadataImage\<close>





















section \<open>ProcessImage\<close>

text \<open>
  \<open>TileBlock::Pixels\<close> is the vector of the rows of a tile. \<open>TileBlockSet\<close> is an
  \<open>unordered_map\<close> from tile blocks to 0-based indices whose key equality
  (\<open>EqTileBlock\<close>) is the equality of the pixel rows and whose hash is computed from the
  same rows; it is modelled as the list of its entries, each the pixel rows of the key and
  the index, in the order they were inserted. ProcessImage uses \<open>size\<close> and \<open>insert\<close>
  only.
\<close>

type_synonym Pixels = "8 word list list"
type_synonym TileBlockSet = "(Pixels \<times> int) list"

text \<open>
  \<open>IsBlank\<close>: the inner loop runs \<open>x\<close> over 1, 3, 5, ... below the size of the row and
  returns false at the first byte that is not zero.
\<close>

function IsBlank_row :: "8 word list \<Rightarrow> nat \<Rightarrow> bool" where
  "IsBlank_row row x =
     (if x < length row
      then (if row ! x \<noteq> 0 then False else IsBlank_row row (x + 2))
      else True)"
  by pat_completeness auto
termination
  by (relation "measure (\<lambda>(row, x). length row - x)") auto

declare IsBlank_row.simps [simp del]

definition IsBlank :: "Pixels \<Rightarrow> bool" where
  "IsBlank tile_pixels = list_all (\<lambda>row. IsBlank_row row 1) tile_pixels"

text \<open>
  \<open>unique_tiles->insert(std::make_pair(tile, tile_index))\<close>: when the table holds an
  entry with equal pixels it is left alone, otherwise the pair is added. The first
  component of the result is \<open>p.first->second\<close>, the index of the entry found or added.
\<close>

definition insert_tile :: "Pixels \<Rightarrow> int \<Rightarrow> TileBlockSet \<Rightarrow> int \<times> TileBlockSet" where
  "insert_tile tile tile_index unique_tiles =
     (case map_of unique_tiles tile of
        Some i \<Rightarrow> (i, unique_tiles)
      | None \<Rightarrow> (tile_index, unique_tiles @ [(tile, tile_index)]))"

text \<open>
  One iteration of the loop nest, indexed by the cell \<open>(cx, cy)\<close> with
  \<open>x = cx * kTileSize\<close> and \<open>y = cy * kTileSize\<close>, and the function. The state is the
  table and the output grid.
\<close>

definition ProcessImage_body ::
  "InputImage \<Rightarrow> int \<times> int \<Rightarrow> TileBlockSet \<times> TileMap \<Rightarrow> TileBlockSet \<times> TileMap" where
  "ProcessImage_body input c st =
     (case c of (cx, cy) \<Rightarrow> case st of (unique_tiles, output) \<Rightarrow>
        let x = cx * kTileSize; y = cy * kTileSize;
            tile_pixels = GetPixels 2 input x y
        in if IsBlank tile_pixels
           then (unique_tiles, cell_set output (x div kTileSize) (y div kTileSize) kBlankTile)
           else
             let tile_index = int (length unique_tiles);
                 p = insert_tile tile_pixels tile_index unique_tiles
             in (snd p, cell_set output (x div kTileSize) (y div kTileSize) (fst p + 1)))"

definition ProcessImage ::
  "InputImage \<Rightarrow> TileBlockSet \<Rightarrow> TileMap \<Rightarrow> error + TileBlockSet \<times> TileMap" where
  "ProcessImage input unique_tiles output =
     (if image_format input \<noteq> PNG_FORMAT_GA then Inl AssertionFailed
      else Inr (fold (ProcessImage_body input)
                  (raster (int ((image_width input + 31) div 32))
                          (int ((image_height input + 31) div 32)))
                  (unique_tiles, ResizeOutput input output)))"

text \<open>
  The loop of \<open>main\<close> over the input files, for art-layer files with different layer
  names: each image is processed into a new, empty \<open>TileMap\<close> against the one table.
  The result is the table and the layers in the order of the files.
\<close>

fun ProcessImages :: "InputImage list \<Rightarrow> TileBlockSet \<Rightarrow> error + TileBlockSet \<times> TileMap list" where
  "ProcessImages [] unique_tiles = Inr (unique_tiles, [])"
| "ProcessImages (r # rest) unique_tiles =
     (case ProcessImage r unique_tiles [] of
        Inl e \<Rightarrow> Inl e
      | Inr (unique_tiles', layer) \<Rightarrow>
          (case ProcessImages rest unique_tiles' of
             Inl e \<Rightarrow> Inl e
           | Inr (unique_tiles'', layers) \<Rightarrow> Inr (unique_tiles'', layer # layers)))"

section \<open>Tiles of an image and their interning\<close>

text \<open>
  The pixel rows of the cell \<open>(cx, cy)\<close> of an art-layer image, and what one iteration
  of ProcessImage does with them: \<open>intern\<close> is its effect on the table, \<open>cell_of\<close> reads
  the cell value of a tile off a table that holds it.
\<close>

definition tile_at :: "InputImage \<Rightarrow> int \<times> int \<Rightarrow> Pixels" where
  "tile_at input p = (case p of (cx, cy) \<Rightarrow> GetPixels 2 input (cx * kTileSize) (cy * kTileSize))"

definition intern :: "Pixels \<Rightarrow> TileBlockSet \<Rightarrow> TileBlockSet" where
  "intern t tbl = (if IsBlank t then tbl else snd (insert_tile t (int (length tbl)) tbl))"

definition cell_of :: "TileBlockSet \<Rightarrow> Pixels \<Rightarrow> int" where
  "cell_of tbl t = (if IsBlank t then kBlankTile else the (map_of tbl t) + 1)"

text \<open>
  All tiles of an image in raster order, and the ones that are not blank.
\<close>

definition all_tiles :: "InputImage \<Rightarrow> Pixels list" where
  "all_tiles input = map (tile_at input) (raster (grid_width_of input) (grid_height_of input))"

definition art_tiles :: "InputImage \<Rightarrow> Pixels list" where
  "art_tiles input = filter (\<lambda>t. \<not> IsBlank t) (all_tiles input)"

text \<open>
  The different elements of a list in the order of their first occurrence.
\<close>

definition first_seen :: "'a list \<Rightarrow> 'a list" where
  "first_seen xs = rev (remdups (rev xs))"

text \<open>
  The alpha byte of the pixel \<open>(px, py)\<close> of an art-layer image (two bytes for a pixel:
  gray, alpha), and a cell whose 32 by 32 pixels all have alpha zero.
\<close>

definition alpha_at :: "InputImage \<Rightarrow> nat \<Rightarrow> nat \<Rightarrow> 8 word" where
  "alpha_at input px py = pixels input ! ((py * image_width input + px) * 2 + 1)"

definition transparent_tile :: "InputImage \<Rightarrow> int \<Rightarrow> int \<Rightarrow> bool" where
  "transparent_tile input cx cy =
     list_all (\<lambda>by. list_all (\<lambda>bx. alpha_at input (nat cx * 32 + bx) (nat cy * 32 + by) = 0)
                       [0..<32])
       [0..<32]"

text \<open>
  Example art-layer images, each of one tile (32 by 32 pixels, two bytes for a pixel:
  gray, alpha). \<open>white_tile_image\<close> is opaque white and \<open>half_tile_image\<close> is gray at
  half opacity. Every pixel of \<open>hidden_tile_image\<close> has the gray value 200 and alpha
  zero.
\<close>

definition white_tile_image :: InputImage where
  "white_tile_image =
     \<lparr>image_width = 32, image_height = 32, image_format = PNG_FORMAT_GA,
      pixels = replicate 2048 255\<rparr>"

definition half_tile_image :: InputImage where
  "half_tile_image =
     \<lparr>image_width = 32, image_height = 32, image_format = PNG_FORMAT_GA,
      pixels = replicate 2048 128\<rparr>"

definition hidden_tile_image :: InputImage where
  "hidden_tile_image =
     \<lparr>image_width = 32, image_height = 32, image_format = PNG_FORMAT_GA,
      pixels = concat (replicate 1024 [200, 0])\<rparr>"

section \<open>Facts about tile maps\<close>

lemma in_raster [simp]:
  "(x, y) \<in> set (raster w h) \<longleftrightarrow> in_grid w h x y"
  by (force simp: raster_def in_grid_def)

lemma distinct_raster: "distinct (raster w h)"
  unfolding raster_def
  by (auto simp: distinct_map distinct_product inj_on_def)

lemma cell_at_cell_set:
  assumes "grid_ok w h g" "in_grid w h x y" "in_grid w h x' y'"
  shows "cell_at (cell_set g x y v) x' y' = (if x' = x \<and> y' = y then v else cell_at g x' y')"
proof -
  from assms have ly: "nat y < length g" "nat y' < length g"
    by (auto simp: grid_ok_def in_grid_def)
  from assms ly have lx: "nat x < length (g ! nat y)" "nat x' < length (g ! nat y')"
    by (auto simp: grid_ok_def in_grid_def list_all_length)
  from assms have inj: "nat y' = nat y \<longleftrightarrow> y' = y" "nat x' = nat x \<longleftrightarrow> x' = x"
    by (auto simp: in_grid_def)
  show ?thesis
    using ly lx inj by (auto simp: cell_at_def cell_set_def nth_list_update)
qed

lemma grid_ok_cell_set:
  assumes "grid_ok w h g"
  shows "grid_ok w h (cell_set g x y v)"
proof -
  have "list_all (\<lambda>r. int (length r) = w) (g[nat y := (g ! nat y)[nat x := v]])"
  proof (cases "nat y < length g")
    case True
    then show ?thesis
      using assms by (auto simp: grid_ok_def list_all_length nth_list_update)
  next
    case False
    then show ?thesis
      using assms by (simp add: grid_ok_def list_update_beyond)
  qed
  then show ?thesis
    using assms by (simp add: grid_ok_def cell_set_def)
qed

subsection \<open>RemoveGhosts\<close>

lemma grid_ok_RemoveGhosts_body:
  "grid_ok w h g \<Longrightarrow> grid_ok w h (RemoveGhosts_body p g)"
  by (cases p) (simp add: RemoveGhosts_body_def Let_def grid_ok_cell_set)

lemma grid_ok_fold_RemoveGhosts:
  "grid_ok w h g \<Longrightarrow> grid_ok w h (fold RemoveGhosts_body cs g)"
  by (induction cs arbitrary: g) (simp_all add: grid_ok_RemoveGhosts_body)

lemma RemoveGhosts_body_other:
  assumes "grid_ok w h g" "in_grid w h x y" "in_grid w h (fst p) (snd p)" "p \<noteq> (x, y)"
  shows "cell_at (RemoveGhosts_body p g) x y = cell_at g x y"
  using assms
  by (cases p) (auto simp: RemoveGhosts_body_def Let_def cell_at_cell_set)

lemma fold_RemoveGhosts_other:
  assumes "grid_ok w h g" "in_grid w h x y" "\<forall>p\<in>set cs. in_grid w h (fst p) (snd p)"
    "(x, y) \<notin> set cs"
  shows "cell_at (fold RemoveGhosts_body cs g) x y = cell_at g x y"
  using assms
proof (induction cs arbitrary: g)
  case Nil
  then show ?case by simp
next
  case (Cons p cs)
  have ok: "grid_ok w h (RemoveGhosts_body p g)"
    using Cons.prems(1) by (rule grid_ok_RemoveGhosts_body)
  have "cell_at (fold RemoveGhosts_body cs (RemoveGhosts_body p g)) x y
        = cell_at (RemoveGhosts_body p g) x y"
    using Cons.IH [OF ok] Cons.prems by simp
  also have "\<dots> = cell_at g x y"
    using Cons.prems by (intro RemoveGhosts_body_other [where w = w and h = h]) auto
  finally show ?case by simp
qed

lemma RemoveGhosts_body_self:
  assumes "grid_ok w h g" "in_grid w h x y"
  shows "cell_at (RemoveGhosts_body (x, y) g) x y =
           (if cell_at g x y AND kGhostCollisionTile \<noteq> 0
            then cell_at g x y AND NOT (kGhostCollisionTile OR kCollisionMask)
            else cell_at g x y)"
  using assms by (simp add: RemoveGhosts_body_def Let_def cell_at_cell_set)

lemma fold_RemoveGhosts_cell:
  assumes ok: "grid_ok w h g" and xy: "in_grid w h x y"
  shows "cell_at (fold RemoveGhosts_body (raster w h) g) x y =
           (if cell_at g x y AND kGhostCollisionTile \<noteq> 0
            then cell_at g x y AND NOT (kGhostCollisionTile OR kCollisionMask)
            else cell_at g x y)"
proof -
  from xy have "(x, y) \<in> set (raster w h)" by simp
  then obtain as bs where split: "raster w h = as @ (x, y) # bs"
    by (blast dest: split_list)
  from distinct_raster [of w h] split
  have notin: "(x, y) \<notin> set as" "(x, y) \<notin> set bs" by auto
  have inr: "\<forall>p\<in>set as. in_grid w h (fst p) (snd p)" "\<forall>p\<in>set bs. in_grid w h (fst p) (snd p)"
  proof -
    have "\<forall>p\<in>set (raster w h). in_grid w h (fst p) (snd p)" by auto
    then show "\<forall>p\<in>set as. in_grid w h (fst p) (snd p)"
      "\<forall>p\<in>set bs. in_grid w h (fst p) (snd p)"
      unfolding split by auto
  qed
  let ?g1 = "fold RemoveGhosts_body as g"
  have ok1: "grid_ok w h ?g1" using ok by (rule grid_ok_fold_RemoveGhosts)
  have same1: "cell_at ?g1 x y = cell_at g x y"
    using ok xy inr(1) notin(1) by (rule fold_RemoveGhosts_other)
  let ?g2 = "RemoveGhosts_body (x, y) ?g1"
  have ok2: "grid_ok w h ?g2" using ok1 by (rule grid_ok_RemoveGhosts_body)
  have "cell_at (fold RemoveGhosts_body (raster w h) g) x y
          = cell_at (fold RemoveGhosts_body bs ?g2) x y"
    by (simp add: split)
  also have "\<dots> = cell_at ?g2 x y"
    using ok2 xy inr(2) notin(2) by (rule fold_RemoveGhosts_other)
  also have "\<dots> = (if cell_at ?g1 x y AND kGhostCollisionTile \<noteq> 0
            then cell_at ?g1 x y AND NOT (kGhostCollisionTile OR kCollisionMask)
            else cell_at ?g1 x y)"
    using ok1 xy by (rule RemoveGhosts_body_self)
  finally show ?thesis by (simp add: same1)
qed

lemma ghost_cleared_bits:
  fixes t :: int
  shows "(t AND NOT (kGhostCollisionTile OR kCollisionMask)) AND kGhostCollisionTile = 0"
    and "(t AND NOT (kGhostCollisionTile OR kCollisionMask)) AND kCollisionMask = 0"
    and "(t AND NOT (kGhostCollisionTile OR kCollisionMask)) AND kMountMask = t AND kMountMask"
    and "(t AND NOT (kGhostCollisionTile OR kCollisionMask)) AND kBreakableTile
           = t AND kBreakableTile"
    and "(t AND NOT (kGhostCollisionTile OR kCollisionMask)) AND kCollectibleTileMask
           = t AND kCollectibleTileMask"
    and "(t AND NOT (kGhostCollisionTile OR kCollisionMask)) AND kChainReaction
           = t AND kChainReaction"
    and "(t AND NOT (kGhostCollisionTile OR kCollisionMask)) AND kTerminalReaction
           = t AND kTerminalReaction"
    and "(t AND NOT (kGhostCollisionTile OR kCollisionMask))
            AND NOT (kGhostCollisionTile OR kCollisionMask)
           = t AND NOT (kGhostCollisionTile OR kCollisionMask)"
  by (simp_all add: k_defs and.assoc)

subsection \<open>CheckTerminalReactions\<close>

lemma CheckTerminalReactions_body_eq:
  assumes "in_grid w h x y"
  shows "CheckTerminalReactions_body w h tiles (x, y) (s, log) =
           (if unreachable_terminal w h tiles (x, y)
            then (False, log @ [terminal_diagnostic (x, y)]) else (s, log))"
proof -
  have "has_chain_neighbour w h tiles x y \<longleftrightarrow>
          ((y > 0 \<and> cell_at tiles x (y - 1) AND kChainReaction \<noteq> 0) \<or>
           (y < h - 1 \<and> cell_at tiles x (y + 1) AND kChainReaction \<noteq> 0) \<or>
           (x > 0 \<and> cell_at tiles (x - 1) y AND kChainReaction \<noteq> 0) \<or>
           (x < w - 1 \<and> cell_at tiles (x + 1) y AND kChainReaction \<noteq> 0))"
    using assms by (auto simp: has_chain_neighbour_def in_grid_def)
  then show ?thesis
    by (simp add: CheckTerminalReactions_body_def unreachable_terminal_def
        terminal_diagnostic_def Let_def)
qed

lemma fold_CheckTerminalReactions:
  assumes "\<forall>p\<in>set cs. in_grid w h (fst p) (snd p)"
  shows "fold (CheckTerminalReactions_body w h tiles) cs (s, log) =
           (s \<and> (\<forall>p\<in>set cs. \<not> unreachable_terminal w h tiles p),
            log @ map terminal_diagnostic (filter (unreachable_terminal w h tiles) cs))"
  using assms
proof (induction cs arbitrary: s log)
  case Nil
  then show ?case by simp
next
  case (Cons p cs)
  obtain x y where p: "p = (x, y)" by (cases p)
  with Cons.prems have "in_grid w h x y" by simp
  then show ?case
    using Cons.IH Cons.prems by (simp add: p CheckTerminalReactions_body_eq)
qed

subsection \<open>The run and pair packer\<close>

lemma unpack_append [simp]: "unpack (xs @ ys) = unpack xs @ unpack ys"
  by (simp add: unpack_def)

lemma unpack_Nil [simp]: "unpack [] = []"
  by (simp add: unpack_def)

lemma unpack_Cons [simp]: "unpack (v # vs) = unpack_entry v @ unpack vs"
  by (simp add: unpack_def)

lemma unpack_entry_index: "1 \<le> v \<Longrightarrow> v \<le> kMaxTileCount \<Longrightarrow> unpack_entry v = [v]"
  by (simp add: unpack_entry_def kMaxTileCount_def)

lemma unpack_entry_run: "0 < n \<Longrightarrow> unpack_entry (- n) = replicate (nat n) kBlankTile"
  by (simp add: unpack_entry_def)

lemma pair_ge:
  fixes a b :: int
  assumes "1 \<le> a" "0 \<le> b"
  shows "2 ^ 16 \<le> push_bit 16 a OR b"
proof -
  have "(2::int) ^ 16 \<le> push_bit 16 a"
    using assms(1) by (simp add: push_bit_eq_mult)
  also have "\<dots> \<le> push_bit 16 a OR b"
    using assms(2) by (rule or_greater_eq)
  finally show ?thesis .
qed

lemma pair_high:
  fixes a b :: int
  assumes "0 \<le> b" "b < 2 ^ 16"
  shows "drop_bit 16 (push_bit 16 a OR b) = a"
proof -
  have "drop_bit 16 b = 0"
    using assms by (simp add: drop_bit_eq_div)
  then show ?thesis
    by (simp add: drop_bit_or drop_bit_push_bit)
qed

lemma pair_low:
  fixes a b :: int
  assumes "0 \<le> b" "b < 2 ^ 16"
  shows "(push_bit 16 a OR b) AND 0xffff = b"
proof -
  have m: "(0xffff::int) = mask 16" by (simp add: mask_eq_exp_minus_1)
  have "take_bit 16 b = b"
    using assms by (simp add: take_bit_int_eq_self)
  then show ?thesis
    unfolding m by (simp add: take_bit_eq_mask [symmetric] take_bit_push_bit)
qed

lemma unpack_entry_pair:
  assumes "1 \<le> a" "1 \<le> b" "b \<le> kMaxTileCount"
  shows "unpack_entry (push_bit 16 a OR b) = [a, b]"
proof -
  from assms have b: "0 \<le> b" "b < 2 ^ 16" by (simp_all add: kMaxTileCount_def)
  have "2 ^ 16 \<le> push_bit 16 a OR b" using assms(1) b(1) by (rule pair_ge)
  moreover have "\<not> a < 0" "\<not> b < 0" using assms(1) b(1) by simp_all
  ultimately show ?thesis
    using pair_high [OF b, of a] pair_low [OF b, of a]
    by (simp add: unpack_entry_def)
qed

lemma scan_cell_blank:
  assumes "scan_ok (bc, tw)"
  shows "scan_cell kBlankTile (bc, tw) =
           (if bc < 0x7fff then Inr (bc + 1, tw) else Inl AssertionFailed)"
  by (simp add: scan_cell_def)

lemma scan_cell_blank_props:
  assumes "scan_ok (bc, tw)" "bc < 0x7fff"
  shows "scan_ok (bc + 1, tw)" "decoded (bc + 1, tw) = decoded (bc, tw) @ [kBlankTile]"
  using assms
  by (simp_all add: scan_ok_def decoded_def pending_def nat_add_distrib
      replicate_append_same)

lemma scan_cell_index:
  assumes ok: "scan_ok st" and c: "1 \<le> c" "c \<le> kMaxTileCount"
  shows "\<exists>st'. scan_cell c st = Inr st' \<and> scan_ok st' \<and> fst st' = 0 \<and>
               decoded st' = decoded st @ [c]"
proof -
  obtain bc tw where st: "st = (bc, tw)" by (cases st)
  from c have nb: "c \<noteq> kBlankTile" "c \<noteq> 0" by (simp_all add: kBlankTile_def)
  show ?thesis
  proof (cases "bc > 0")
    case True
    then show ?thesis
      using ok c nb
      by (auto simp: st scan_cell_def scan_ok_def decoded_def pending_def WriteBlankRun_def
          WriteNonblankTile_def FlushBufferedNonblankValue_def Write_def Let_def
          unpack_entry_index unpack_entry_run)
  next
    case False
    with ok have bc: "bc = 0" by (simp add: st scan_ok_def)
    show ?thesis
      using ok c nb
      by (auto simp: st bc scan_cell_def scan_ok_def decoded_def pending_def
          WriteNonblankTile_def Write_def Let_def unpack_entry_pair)
  qed
qed

lemma longest_blank_run_ge: "n \<le> longest_blank_run n cs"
  by (induction cs arbitrary: n) (auto intro: Suc_leD order_trans [OF _ max.cobounded1])

lemma scan_cells_decodes:
  assumes "scan_ok st" "list_all art_cell cs" "longest_blank_run (nat (fst st)) cs \<le> 0x7fff"
  shows "\<exists>st'. scan_cells cs st = Inr st' \<and> scan_ok st' \<and> decoded st' = decoded st @ cs"
  using assms
proof (induction cs arbitrary: st)
  case Nil
  then show ?case by simp
next
  case (Cons c cs)
  obtain bc tw where st: "st = (bc, tw)" by (cases st)
  show ?case
  proof (cases "c = kBlankTile")
    case True
    from Cons.prems(3) have run: "longest_blank_run (Suc (nat bc)) cs \<le> 0x7fff"
      by (simp add: st True)
    have "Suc (nat bc) \<le> longest_blank_run (Suc (nat bc)) cs"
      by (rule longest_blank_run_ge)
    with run have lt: "bc < 0x7fff" by simp
    from Cons.prems(1) have bc0: "0 \<le> bc" by (simp add: st scan_ok_def)
    have step: "scan_cell c st = Inr (bc + 1, tw)"
      using lt by (simp add: st True scan_cell_def)
    have ok': "scan_ok (bc + 1, tw)"
      and dec': "decoded (bc + 1, tw) = decoded (bc, tw) @ [kBlankTile]"
      using scan_cell_blank_props [of bc tw] Cons.prems(1) lt by (simp_all add: st)
    have "nat (fst (bc + 1, tw)) = Suc (nat bc)" using bc0 by simp
    with run have run': "longest_blank_run (nat (fst (bc + 1, tw))) cs \<le> 0x7fff" by simp
    from Cons.prems(2) have "list_all art_cell cs" by simp
    from Cons.IH [OF ok' this run'] obtain st' where
      "scan_cells cs (bc + 1, tw) = Inr st'" "scan_ok st'"
      "decoded st' = decoded (bc + 1, tw) @ cs" by blast
    then show ?thesis
      using step dec' by (simp add: st True)
  next
    case False
    with Cons.prems(2) have c: "1 \<le> c" "c \<le> kMaxTileCount" by (simp_all add: art_cell_def)
    from scan_cell_index [OF Cons.prems(1) c] obtain st1 where
      st1: "scan_cell c st = Inr st1" "scan_ok st1" "fst st1 = 0"
      "decoded st1 = decoded st @ [c]" by blast
    from Cons.prems(3) False have "longest_blank_run 0 cs \<le> 0x7fff" by simp
    with st1(3) have run': "longest_blank_run (nat (fst st1)) cs \<le> 0x7fff" by simp
    from Cons.prems(2) have "list_all art_cell cs" by simp
    from Cons.IH [OF st1(2) this run'] obtain st' where
      "scan_cells cs st1 = Inr st'" "scan_ok st'" "decoded st' = decoded st1 @ cs" by blast
    then show ?thesis
      using st1 by simp
  qed
qed

lemma scan_cells_blank_run:
  assumes "0 \<le> bc" "bc + int n \<le> 0x7fff"
  shows "scan_cells (replicate n kBlankTile) (bc, tw) = Inr (bc + int n, tw)"
  using assms
  by (induction n arbitrary: bc) (simp_all add: scan_cell_def)

lemma scan_cells_append:
  "scan_cells (xs @ ys) st =
     (case scan_cells xs st of Inl e \<Rightarrow> Inl e | Inr st' \<Rightarrow> scan_cells ys st')"
  by (induction xs arbitrary: st) (simp_all split: sum.splits)


lemma finish_decodes:
  assumes "scan_ok (bc, tw)"
  shows "unpack (written (Flush (if bc > 0 then WriteBlankRun bc tw else tw))) = decoded (bc, tw)"
  using assms
  by (auto simp: scan_ok_def decoded_def pending_def Flush_def WriteBlankRun_def
      FlushBufferedNonblankValue_def Write_def Let_def unpack_entry_index unpack_entry_run)

lemma IndexOfLastRow_from_bounds:
  "0 \<le> IndexOfLastRow_from tiles n \<and> IndexOfLastRow_from tiles n \<le> int n"
  by (induction n) auto

lemma IndexOfLastRow_bounds:
  assumes "tiles \<noteq> []"
  shows "0 \<le> IndexOfLastRow tiles" "IndexOfLastRow tiles < int (length tiles)"
proof -
  from assms obtain n where n: "length tiles = Suc n" by (cases tiles) auto
  show "0 \<le> IndexOfLastRow tiles" "IndexOfLastRow tiles < int (length tiles)"
    using IndexOfLastRow_from_bounds [of tiles n]
    by (simp_all add: IndexOfLastRow_def n)
qed

lemma IndexOfLastRow_from_blank:
  assumes "list_all (list_all (\<lambda>c. c = kBlankTile)) tiles" "n < length tiles"
  shows "IndexOfLastRow_from tiles n = 0"
  using assms(2)
proof (induction n)
  case 0
  then show ?case by simp
next
  case (Suc n)
  from assms(1) Suc.prems have "list_all (\<lambda>c. c = kBlankTile) (tiles ! Suc n)"
    by (simp add: list_all_length)
  then have "\<not> list_ex (\<lambda>cell. cell \<noteq> kBlankTile) (tiles ! Suc n)"
    by (simp add: list_all_iff list_ex_iff)
  with Suc show ?case by simp
qed


lemma length_concat_rows:
  assumes "list_all (\<lambda>r. int (length r) = w) rows"
  shows "int (length (concat rows)) = int (length rows) * w"
  using assms by (induction rows) (simp_all add: algebra_simps)

lemma WriteTileTable_ok:
  assumes "tiles \<noteq> []" "list_all art_cell (scanned_cells tiles)"
    "longest_blank_run 0 (scanned_cells tiles) \<le> 0x7fff"
  shows "\<exists>body. WriteTileTable tiles =
            Inr ((IndexOfLastRow tiles + 1) * int (length (hd tiles)), body) \<and>
          unpack body = scanned_cells tiles"
proof -
  let ?st0 = "(0::int, \<lparr>written = [], text_row_size = 0, value_pair_buffer = 0\<rparr>)"
  have ok0: "scan_ok ?st0" by (simp add: scan_ok_def)
  have dec0: "decoded ?st0 = []" by (simp add: decoded_def pending_def)
  from assms(3) have "longest_blank_run (nat (fst ?st0)) (scanned_cells tiles) \<le> 0x7fff"
    by simp
  from scan_cells_decodes [OF ok0 assms(2) this] obtain st' where
    st': "scan_cells (scanned_cells tiles) ?st0 = Inr st'" "scan_ok st'"
    "decoded st' = scanned_cells tiles"
    using dec0 by auto
  obtain bc tw where bt: "st' = (bc, tw)" by (cases st')
  have "unpack (written (Flush (if bc > 0 then WriteBlankRun bc tw else tw))) =
          scanned_cells tiles"
    using finish_decodes [of bc tw] st'(2,3) by (simp add: bt)
  then show ?thesis
    using assms(1) st'(1) by (simp add: WriteTileTable_def Let_def bt)
qed



lemma scanned_cells_length:
  assumes "grid_ok w h tiles" "0 < h"
  shows "int (length (scanned_cells tiles)) = (IndexOfLastRow tiles + 1) * w"
    and "int (length (hd tiles)) = w"
proof -
  from assms have ne: "tiles \<noteq> []" by (auto simp: grid_ok_def)
  let ?k = "nat (IndexOfLastRow tiles + 1)"
  have k: "?k \<le> length tiles" "int ?k = IndexOfLastRow tiles + 1"
    using IndexOfLastRow_bounds [OF ne] by simp_all
  from assms(1) have "list_all (\<lambda>r. int (length r) = w) (take ?k tiles)"
    by (auto simp: grid_ok_def list_all_iff dest: in_set_takeD)
  from length_concat_rows [OF this] k
  show "int (length (scanned_cells tiles)) = (IndexOfLastRow tiles + 1) * w"
    by (simp add: scanned_cells_def min_absorb2)
  from assms(1) ne show "int (length (hd tiles)) = w"
    by (cases tiles) (simp_all add: grid_ok_def)
qed

lemma scanned_cells_blank:
  assumes "grid_ok w h tiles" "0 < h" "list_all (list_all (\<lambda>c. c = kBlankTile)) tiles"
  shows "IndexOfLastRow tiles = 0" "scanned_cells tiles = replicate (nat w) kBlankTile"
proof -
  from assms obtain r rs where t: "tiles = r # rs" by (cases tiles) (auto simp: grid_ok_def)
  show z: "IndexOfLastRow tiles = 0"
    unfolding IndexOfLastRow_def
    using assms(3) by (intro IndexOfLastRow_from_blank) (simp_all add: t)
  from assms(1) have len: "length r = nat w" by (auto simp: t grid_ok_def)
  from assms(3) have "\<forall>c\<in>set r. c = kBlankTile" by (simp add: t list_all_iff)
  then have "replicate (length r) kBlankTile = r" by (rule replicate_length_same)
  then show "scanned_cells tiles = replicate (nat w) kBlankTile"
    using z by (simp add: scanned_cells_def t len)
qed



subsection \<open>DetectMountPoints\<close>

lemma AssignMountAttributes_eq:
  "AssignMountAttributes m dx dy w h x y g =
     (if mount_condition g w h x y dx dy then cell_set g x y (cell_at g x y OR m) else g)"
  unfolding AssignMountAttributes_def mount_condition_def Let_def
  by (simp only: split: if_split) blast

lemma keep_low_bits:
  fixes t t' :: int
  assumes "t' AND NOT kMountMask = t AND NOT kMountMask"
  shows "t' AND kCollisionMask = t AND kCollisionMask"
    and "t' AND kBreakableTile = t AND kBreakableTile"
proof -
  have c: "(u AND NOT kMountMask) AND kCollisionMask = u AND kCollisionMask" for u :: int
    by (simp add: k_defs and.assoc)
  have b: "(u AND NOT kMountMask) AND kBreakableTile = u AND kBreakableTile" for u :: int
    by (simp add: k_defs and.assoc)
  show "t' AND kCollisionMask = t AND kCollisionMask"
    using c [of t'] c [of t] assms by simp
  show "t' AND kBreakableTile = t AND kBreakableTile"
    using b [of t'] b [of t] assms by simp
qed

lemma stable_refl: "grid_ok w h g \<Longrightarrow> stable w h g g"
  by (simp add: stable_def)

lemma stable_trans: "stable w h g g' \<Longrightarrow> stable w h g' g'' \<Longrightarrow> stable w h g g''"
  by (simp add: stable_def)

lemma stable_low_bits:
  assumes "stable w h g g'" "in_grid w h x y"
  shows "cell_at g' x y AND kCollisionMask = cell_at g x y AND kCollisionMask"
    and "cell_at g' x y AND kBreakableTile = cell_at g x y AND kBreakableTile"
  using assms keep_low_bits [of "cell_at g' x y" "cell_at g x y"]
  by (simp_all add: stable_def)

lemma stable_IsEmptyOrBreakable:
  assumes "stable w h g g'"
  shows "IsEmptyOrBreakable g' w h a b = IsEmptyOrBreakable g w h a b"
proof (cases "in_grid w h a b")
  case True
  from stable_low_bits [OF assms True] show ?thesis
    by (simp add: IsEmptyOrBreakable_def Let_def)
next
  case False
  then show ?thesis
    by (auto simp: IsEmptyOrBreakable_def in_grid_def)
qed

lemma stable_NEIGHBOR_COLLISION:
  assumes "stable w h g g'"
  shows "NEIGHBOR_COLLISION g' w h x y dx dy = NEIGHBOR_COLLISION g w h x y dx dy"
proof (cases "in_grid w h (x + dx) (y + dy)")
  case True
  from stable_low_bits(1) [OF assms True] show ?thesis
    by (simp add: NEIGHBOR_COLLISION_def)
next
  case False
  then show ?thesis
    by (auto simp: NEIGHBOR_COLLISION_def in_grid_def)
qed

lemma stable_mount_condition:
  assumes "stable w h g g'" "in_grid w h x y"
  shows "mount_condition g' w h x y dx dy = mount_condition g w h x y dx dy"
  unfolding mount_condition_def HAS_ENOUGH_CLEARANCE_def IS_EMPTY_OR_BREAKABLE_def
  by (simp add: stable_IsEmptyOrBreakable [OF assms(1)] stable_NEIGHBOR_COLLISION [OF assms(1)]
      stable_low_bits(1) [OF assms])

lemma stable_cell_set:
  assumes "grid_ok w h g" "in_grid w h x y" "v AND NOT kMountMask = cell_at g x y AND NOT kMountMask"
  shows "stable w h g (cell_set g x y v)"
  using assms by (simp add: stable_def grid_ok_cell_set cell_at_cell_set)

lemma or_mount_keeps:
  fixes t m :: int
  assumes "m AND NOT kMountMask = 0"
  shows "(t OR m) AND NOT kMountMask = t AND NOT kMountMask"
  using assms by (simp add: bit.conj_disj_distrib2)

lemma stable_AssignMountAttributes:
  assumes "grid_ok w h g" "in_grid w h x y" "m AND NOT kMountMask = 0"
  shows "stable w h g (AssignMountAttributes m dx dy w h x y g)"
  using assms
  by (simp add: AssignMountAttributes_eq stable_refl stable_cell_set or_mount_keeps)

lemma AssignMountAttributes_other:
  assumes "grid_ok w h g" "in_grid w h x y" "in_grid w h x' y'" "(x', y') \<noteq> (x, y)"
  shows "cell_at (AssignMountAttributes m dx dy w h x y g) x' y' = cell_at g x' y'"
  using assms by (auto simp: AssignMountAttributes_eq cell_at_cell_set)

lemma AssignMountAttributes_self:
  assumes "grid_ok w h g" "in_grid w h x y"
  shows "cell_at (AssignMountAttributes m dx dy w h x y g) x y =
           (if mount_condition g w h x y dx dy then cell_at g x y OR m else cell_at g x y)"
  using assms by (simp add: AssignMountAttributes_eq cell_at_cell_set)

lemma mount_masks:
  "kMountUp AND NOT kMountMask = 0" "kMountDown AND NOT kMountMask = 0"
  "kMountLeft AND NOT kMountMask = 0" "kMountRight AND NOT kMountMask = 0"
  "(kMountUp OR kMountLeft) AND NOT kMountMask = 0"
  "(kMountUp OR kMountRight) AND NOT kMountMask = 0"
  "(kMountDown OR kMountLeft) AND NOT kMountMask = 0"
  "(kMountDown OR kMountRight) AND NOT kMountMask = 0"
  by (simp_all add: k_defs)

lemma grid_ok_AssignMountAttributes:
  "grid_ok w h g \<Longrightarrow> grid_ok w h (AssignMountAttributes m dx dy w h x y g)"
  by (simp add: AssignMountAttributes_eq grid_ok_cell_set)

text \<open>The body of the loop keeps everything but the mount bits of its own cell.\<close>

lemma DetectMountPoints_body_stable:
  assumes "grid_ok w h g" "in_grid w h x y" "DetectMountPoints_body w h (x, y) g = Inr g'"
  shows "stable w h g g'"
proof -
  note st = stable_AssignMountAttributes [OF _ assms(2)]
  note ok = grid_ok_AssignMountAttributes
  have four: "stable w h g
     (AssignMountAttributes kMountRight 1 0 w h x y
     (AssignMountAttributes kMountLeft (- 1) 0 w h x y
     (AssignMountAttributes kMountDown 0 1 w h x y
     (AssignMountAttributes kMountUp 0 (- 1) w h x y g))))"
    by (intro stable_trans [OF st st] stable_trans [OF _ st] st ok assms(1) mount_masks)
  show ?thesis
    using assms(3) four st [OF assms(1)] stable_refl [OF assms(1)]
    by (auto simp: DetectMountPoints_body_def Let_def mount_masks split: if_splits)
qed

lemma DetectMountPoints_body_other:
  assumes "grid_ok w h g" "in_grid w h x y" "DetectMountPoints_body w h (x, y) g = Inr g'"
    "in_grid w h x' y'" "(x', y') \<noteq> (x, y)"
  shows "cell_at g' x' y' = cell_at g x' y'"
proof -
  note oth = AssignMountAttributes_other [OF _ assms(2) assms(4) assms(5)]
  note ok = grid_ok_AssignMountAttributes
  show ?thesis
    using assms(3)
    by (auto simp: DetectMountPoints_body_def Let_def oth ok assms(1) split: if_splits)
qed

lemma mount_condition_square:
  assumes "cell_at g x y AND kCollisionMask = kCollisionSquare" "dx = 0 \<or> dy = 0"
  shows "mount_condition g w h x y dx dy = square_mountable g w h x y dx dy"
proof -
  have nc: "NEIGHBOR_COLLISION g w h x y lx ly = kCollisionSquare \<longleftrightarrow>
              in_grid w h (x + lx) (y + ly) \<and>
              cell_at g (x + lx) (y + ly) AND kCollisionMask = kCollisionSquare" for lx ly
    by (auto simp: NEIGHBOR_COLLISION_def in_grid_def kCollisionSquare_def)
  have hec: "HAS_ENOUGH_CLEARANCE g w h x y dx dy lx ly =
               outward_clear g w h (x + lx) (y + ly) dx dy" for lx ly
    by (simp add: HAS_ENOUGH_CLEARANCE_def IS_EMPTY_OR_BREAKABLE_def outward_clear_def
        add.assoc mult.commute)
  have own: "(IS_EMPTY_OR_BREAKABLE g w h x y dx dy \<and>
              IS_EMPTY_OR_BREAKABLE g w h x y (dx * 2) (dy * 2)) = outward_clear g w h x y dx dy"
    by (simp add: IS_EMPTY_OR_BREAKABLE_def outward_clear_def mult.commute)
  show ?thesis
    unfolding mount_condition_def square_mountable_def lateral_square_def
    using assms(2) own by (auto simp: assms(1) nc hec)
qed

lemma small_cases: "0 \<le> (c::int) \<Longrightarrow> c \<le> 5 \<Longrightarrow> c \<in> {0, 1, 2, 3, 4, 5}"
  by auto

lemma DetectMountPoints_body_succeeds:
  assumes "known_shape (cell_at g x y)"
  shows "\<exists>g'. DetectMountPoints_body w h (x, y) g = Inr g'"
proof (cases "cell_at g x y AND kBreakableTile \<noteq> 0")
  case True
  then show ?thesis by (simp add: DetectMountPoints_body_def)
next
  case False
  with assms have le: "cell_at g x y AND kCollisionMask \<le> 5" by (simp add: known_shape_def)
  have "0 \<le> cell_at g x y AND kCollisionMask" by (simp add: kCollisionMask_def)
  from small_cases [OF this le] show ?thesis
    by (auto simp: DetectMountPoints_body_def Let_def kCollisionNone_def kCollisionSquare_def
        kCollisionUpLeft_def kCollisionUpRight_def kCollisionDownLeft_def kCollisionDownRight_def)
qed

lemma DetectMountPoints_loop_append:
  "DetectMountPoints_loop w h (as @ bs) g =
     (case DetectMountPoints_loop w h as g of
        Inl e \<Rightarrow> Inl e | Inr g1 \<Rightarrow> DetectMountPoints_loop w h bs g1)"
  by (induction as arbitrary: g) (simp_all split: sum.splits)

lemma DetectMountPoints_loop_stable:
  assumes "grid_ok w h g" "\<forall>p\<in>set cs. in_grid w h (fst p) (snd p)"
    "DetectMountPoints_loop w h cs g = Inr g'"
  shows "stable w h g g'"
  using assms
proof (induction cs arbitrary: g)
  case Nil
  then show ?case by (simp add: stable_refl)
next
  case (Cons p cs)
  obtain x y where p: "p = (x, y)" by (cases p)
  from Cons.prems(2) have xy: "in_grid w h x y" by (simp add: p)
  from Cons.prems(3) obtain g1 where
    g1: "DetectMountPoints_body w h (x, y) g = Inr g1" "DetectMountPoints_loop w h cs g1 = Inr g'"
    by (auto simp: p split: sum.splits)
  have s1: "stable w h g g1"
    using Cons.prems(1) xy g1(1) by (rule DetectMountPoints_body_stable)
  then have "grid_ok w h g1" by (simp add: stable_def)
  from Cons.IH [OF this _ g1(2)] Cons.prems(2) have "stable w h g1 g'" by simp
  with s1 show ?case by (rule stable_trans)
qed

lemma DetectMountPoints_loop_other:
  assumes "grid_ok w h g" "\<forall>p\<in>set cs. in_grid w h (fst p) (snd p)"
    "DetectMountPoints_loop w h cs g = Inr g'" "in_grid w h x y" "(x, y) \<notin> set cs"
  shows "cell_at g' x y = cell_at g x y"
  using assms
proof (induction cs arbitrary: g)
  case Nil
  then show ?case by simp
next
  case (Cons p cs)
  obtain a b where p: "p = (a, b)" by (cases p)
  from Cons.prems(2) have ab: "in_grid w h a b" by (simp add: p)
  from Cons.prems(5) have ne: "(x, y) \<noteq> (a, b)" by (simp add: p)
  from Cons.prems(3) obtain g1 where
    g1: "DetectMountPoints_body w h (a, b) g = Inr g1" "DetectMountPoints_loop w h cs g1 = Inr g'"
    by (auto simp: p split: sum.splits)
  have "stable w h g g1"
    using Cons.prems(1) ab g1(1) by (rule DetectMountPoints_body_stable)
  then have ok1: "grid_ok w h g1" by (simp add: stable_def)
  have "cell_at g' x y = cell_at g1 x y"
    using Cons.IH [OF ok1 _ g1(2) Cons.prems(4)] Cons.prems(2,5) by simp
  also have "\<dots> = cell_at g x y"
    using Cons.prems(1) ab g1(1) Cons.prems(4) ne by (rule DetectMountPoints_body_other)
  finally show ?case .
qed

lemma stable_known_shape:
  assumes "stable w h g g'" "in_grid w h x y"
  shows "known_shape (cell_at g' x y) = known_shape (cell_at g x y)"
  using stable_low_bits [OF assms] by (simp add: known_shape_def)

lemma DetectMountPoints_loop_succeeds:
  assumes "grid_ok w h g" "\<forall>p\<in>set cs. in_grid w h (fst p) (snd p)"
    "\<forall>x y. in_grid w h x y \<longrightarrow> known_shape (cell_at g x y)"
  shows "\<exists>g'. DetectMountPoints_loop w h cs g = Inr g'"
  using assms
proof (induction cs arbitrary: g)
  case Nil
  then show ?case by simp
next
  case (Cons p cs)
  obtain a b where p: "p = (a, b)" by (cases p)
  from Cons.prems(2) have ab: "in_grid w h a b" by (simp add: p)
  with Cons.prems(3) have "known_shape (cell_at g a b)" by simp
  from DetectMountPoints_body_succeeds [OF this] obtain g1 where
    g1: "DetectMountPoints_body w h (a, b) g = Inr g1" by blast
  have s1: "stable w h g g1"
    using Cons.prems(1) ab g1 by (rule DetectMountPoints_body_stable)
  then have ok1: "grid_ok w h g1" by (simp add: stable_def)
  have "\<forall>x y. in_grid w h x y \<longrightarrow> known_shape (cell_at g1 x y)"
    using Cons.prems(3) stable_known_shape [OF s1] by simp
  from Cons.IH [OF ok1 _ this] Cons.prems(2) obtain g' where
    "DetectMountPoints_loop w h cs g1 = Inr g'" by auto
  then show ?case by (simp add: p g1)
qed

lemma cell_at_list_all:
  assumes "grid_ok w h g" "list_all (list_all P) g" "in_grid w h x y"
  shows "P (cell_at g x y)"
proof -
  from assms(1,3) have y: "nat y < length g" by (auto simp: grid_ok_def in_grid_def)
  with assms(1,3) have x: "nat x < length (g ! nat y)"
    by (auto simp: grid_ok_def in_grid_def list_all_length)
  from assms(2) y x show ?thesis
    by (simp add: list_all_length cell_at_def)
qed

lemma mount_bit_tests:
  fixes t :: int
  shows "((if a then t OR kMountUp else t) AND kMountUp \<noteq> 0) = (t AND kMountUp \<noteq> 0 \<or> a)"
    and "((if a then t OR kMountDown else t) AND kMountDown \<noteq> 0) = (t AND kMountDown \<noteq> 0 \<or> a)"
    and "((if a then t OR kMountLeft else t) AND kMountLeft \<noteq> 0) = (t AND kMountLeft \<noteq> 0 \<or> a)"
    and "((if a then t OR kMountRight else t) AND kMountRight \<noteq> 0) = (t AND kMountRight \<noteq> 0 \<or> a)"
  by (simp_all add: k_defs bit.conj_disj_distrib2 or_eq_0_iff)

lemma mount_bit_frame:
  fixes t :: int
  shows "(if a then t OR kMountDown else t) AND kMountUp = t AND kMountUp"
    and "(if a then t OR kMountLeft else t) AND kMountUp = t AND kMountUp"
    and "(if a then t OR kMountRight else t) AND kMountUp = t AND kMountUp"
    and "(if a then t OR kMountLeft else t) AND kMountDown = t AND kMountDown"
    and "(if a then t OR kMountRight else t) AND kMountDown = t AND kMountDown"
    and "(if a then t OR kMountUp else t) AND kMountDown = t AND kMountDown"
    and "(if a then t OR kMountRight else t) AND kMountLeft = t AND kMountLeft"
    and "(if a then t OR kMountUp else t) AND kMountLeft = t AND kMountLeft"
    and "(if a then t OR kMountDown else t) AND kMountLeft = t AND kMountLeft"
    and "(if a then t OR kMountUp else t) AND kMountRight = t AND kMountRight"
    and "(if a then t OR kMountDown else t) AND kMountRight = t AND kMountRight"
    and "(if a then t OR kMountLeft else t) AND kMountRight = t AND kMountRight"
  by (simp_all add: k_defs bit.conj_disj_distrib2)

text \<open>What one iteration does to a square cell that is not breakable.\<close>

lemma DetectMountPoints_body_square:
  assumes ok: "grid_ok w h g" and xy: "in_grid w h x y"
    and sq: "cell_at g x y AND kCollisionMask = kCollisionSquare"
    and nb: "cell_at g x y AND kBreakableTile = 0"
  shows "\<exists>g'. DetectMountPoints_body w h (x, y) g = Inr g' \<and>
     (cell_at g' x y AND kMountUp \<noteq> 0) =
        (cell_at g x y AND kMountUp \<noteq> 0 \<or> square_mountable g w h x y 0 (- 1)) \<and>
     (cell_at g' x y AND kMountDown \<noteq> 0) =
        (cell_at g x y AND kMountDown \<noteq> 0 \<or> square_mountable g w h x y 0 1) \<and>
     (cell_at g' x y AND kMountLeft \<noteq> 0) =
        (cell_at g x y AND kMountLeft \<noteq> 0 \<or> square_mountable g w h x y (- 1) 0) \<and>
     (cell_at g' x y AND kMountRight \<noteq> 0) =
        (cell_at g x y AND kMountRight \<noteq> 0 \<or> square_mountable g w h x y 1 0)"
proof -
  let ?ga = "AssignMountAttributes kMountUp 0 (- 1) w h x y g"
  let ?gb = "AssignMountAttributes kMountDown 0 1 w h x y ?ga"
  let ?gc = "AssignMountAttributes kMountLeft (- 1) 0 w h x y ?gb"
  let ?gd = "AssignMountAttributes kMountRight 1 0 w h x y ?gc"
  have body: "DetectMountPoints_body w h (x, y) g = Inr ?gd"
    using sq nb by (simp add: DetectMountPoints_body_def Let_def k_defs)
  have sa: "stable w h g ?ga"
    using ok xy mount_masks(1) by (rule stable_AssignMountAttributes)
  then have oka: "grid_ok w h ?ga" by (simp add: stable_def)
  have "stable w h ?ga ?gb"
    using oka xy mount_masks(2) by (rule stable_AssignMountAttributes)
  with sa have sb: "stable w h g ?gb" by (rule stable_trans)
  then have okb: "grid_ok w h ?gb" by (simp add: stable_def)
  have "stable w h ?gb ?gc"
    using okb xy mount_masks(3) by (rule stable_AssignMountAttributes)
  with sb have sc: "stable w h g ?gc" by (rule stable_trans)
  then have okc: "grid_ok w h ?gc" by (simp add: stable_def)
  have ca: "cell_at ?ga x y =
      (if square_mountable g w h x y 0 (- 1) then cell_at g x y OR kMountUp else cell_at g x y)"
    using AssignMountAttributes_self [OF ok xy] mount_condition_square [OF sq]
    by simp
  have cb: "cell_at ?gb x y =
      (if square_mountable g w h x y 0 1 then cell_at ?ga x y OR kMountDown else cell_at ?ga x y)"
    using AssignMountAttributes_self [OF oka xy, of kMountDown 0 1]
      stable_mount_condition [OF sa xy, of 0 1] mount_condition_square [OF sq, of 0 1 w h]
    by simp
  have cc: "cell_at ?gc x y =
      (if square_mountable g w h x y (- 1) 0 then cell_at ?gb x y OR kMountLeft else cell_at ?gb x y)"
    using AssignMountAttributes_self [OF okb xy, of kMountLeft "- 1" 0]
      stable_mount_condition [OF sb xy, of "- 1" 0]
      mount_condition_square [OF sq, of "- 1" 0 w h]
    by simp
  have cd: "cell_at ?gd x y =
      (if square_mountable g w h x y 1 0 then cell_at ?gc x y OR kMountRight else cell_at ?gc x y)"
    using AssignMountAttributes_self [OF okc xy, of kMountRight 1 0]
      stable_mount_condition [OF sc xy, of 1 0] mount_condition_square [OF sq, of 1 0 w h]
    by simp
  have up: "(cell_at ?gd x y AND kMountUp \<noteq> 0) =
        (cell_at g x y AND kMountUp \<noteq> 0 \<or> square_mountable g w h x y 0 (- 1))"
    by (simp only: cd cc cb mount_bit_frame) (simp only: ca mount_bit_tests)
  have down: "(cell_at ?gd x y AND kMountDown \<noteq> 0) =
        (cell_at g x y AND kMountDown \<noteq> 0 \<or> square_mountable g w h x y 0 1)"
    by (simp only: cd cc mount_bit_frame) (simp only: cb mount_bit_tests ca mount_bit_frame)
  have left: "(cell_at ?gd x y AND kMountLeft \<noteq> 0) =
        (cell_at g x y AND kMountLeft \<noteq> 0 \<or> square_mountable g w h x y (- 1) 0)"
    by (simp only: cd mount_bit_frame) (simp only: cc mount_bit_tests cb ca mount_bit_frame)
  have right: "(cell_at ?gd x y AND kMountRight \<noteq> 0) =
        (cell_at g x y AND kMountRight \<noteq> 0 \<or> square_mountable g w h x y 1 0)"
    by (simp only: cd mount_bit_tests cc cb ca mount_bit_frame)
  from body up down left right show ?thesis by blast
qed

lemma stable_square_mountable:
  assumes "stable w h g g'" "in_grid w h x y"
    "cell_at g x y AND kCollisionMask = kCollisionSquare" "dx = 0 \<or> dy = 0"
  shows "square_mountable g' w h x y dx dy = square_mountable g w h x y dx dy"
proof -
  from stable_low_bits(1) [OF assms(1,2)] assms(3)
  have sq': "cell_at g' x y AND kCollisionMask = kCollisionSquare" by simp
  show ?thesis
    using mount_condition_square [OF sq' assms(4), of w h]
      mount_condition_square [OF assms(3,4), of w h]
      stable_mount_condition [OF assms(1,2), of dx dy]
    by simp
qed

lemma DetectMountPoints_square_cell:
  assumes ok: "grid_ok w h g" and shapes: "list_all (list_all known_shape) g"
    and xy: "in_grid w h x y"
    and sq: "cell_at g x y AND kCollisionMask = kCollisionSquare"
    and nb: "cell_at g x y AND kBreakableTile = 0"
  shows "\<exists>g'. DetectMountPoints w h g = Inr g' \<and> grid_ok w h g' \<and>
     (cell_at g' x y AND kMountUp \<noteq> 0) =
        (cell_at g x y AND kMountUp \<noteq> 0 \<or> square_mountable g w h x y 0 (- 1)) \<and>
     (cell_at g' x y AND kMountDown \<noteq> 0) =
        (cell_at g x y AND kMountDown \<noteq> 0 \<or> square_mountable g w h x y 0 1) \<and>
     (cell_at g' x y AND kMountLeft \<noteq> 0) =
        (cell_at g x y AND kMountLeft \<noteq> 0 \<or> square_mountable g w h x y (- 1) 0) \<and>
     (cell_at g' x y AND kMountRight \<noteq> 0) =
        (cell_at g x y AND kMountRight \<noteq> 0 \<or> square_mountable g w h x y 1 0)"
proof -
  have inr: "\<forall>p\<in>set (raster w h). in_grid w h (fst p) (snd p)" by auto
  have known: "\<forall>x y. in_grid w h x y \<longrightarrow> known_shape (cell_at g x y)"
    using cell_at_list_all [OF ok shapes] by blast
  from DetectMountPoints_loop_succeeds [OF ok inr known] obtain g' where
    g': "DetectMountPoints_loop w h (raster w h) g = Inr g'" by blast
  from xy have "(x, y) \<in> set (raster w h)" by simp
  then obtain as bs where split: "raster w h = as @ (x, y) # bs"
    by (blast dest: split_list)
  from distinct_raster [of w h] split
  have notin: "(x, y) \<notin> set as" "(x, y) \<notin> set bs" by auto
  from inr have inas: "\<forall>p\<in>set as. in_grid w h (fst p) (snd p)"
    and inbs: "\<forall>p\<in>set bs. in_grid w h (fst p) (snd p)"
    unfolding split by auto
  from g' obtain g1 g2 where
    g1: "DetectMountPoints_loop w h as g = Inr g1" and
    g2: "DetectMountPoints_body w h (x, y) g1 = Inr g2" and
    g3: "DetectMountPoints_loop w h bs g2 = Inr g'"
    unfolding split by (auto simp: DetectMountPoints_loop_append split: sum.splits)
  have s1: "stable w h g g1"
    using ok inas g1 by (rule DetectMountPoints_loop_stable)
  then have ok1: "grid_ok w h g1" by (simp add: stable_def)
  have same1: "cell_at g1 x y = cell_at g x y"
    using ok inas g1 xy notin(1) by (rule DetectMountPoints_loop_other)
  have "stable w h g1 g2"
    using ok1 xy g2 by (rule DetectMountPoints_body_stable)
  then have ok2: "grid_ok w h g2" by (simp add: stable_def)
  have same2: "cell_at g' x y = cell_at g2 x y"
    using ok2 inbs g3 xy notin(2) by (rule DetectMountPoints_loop_other)
  have "stable w h g2 g'"
    using ok2 inbs g3 by (rule DetectMountPoints_loop_stable)
  then have ok': "grid_ok w h g'" by (simp add: stable_def)
  have sq1: "cell_at g1 x y AND kCollisionMask = kCollisionSquare"
    and nb1: "cell_at g1 x y AND kBreakableTile = 0"
    using sq nb by (simp_all add: same1)
  note sm = stable_square_mountable [OF s1 xy sq]
  from DetectMountPoints_body_square [OF ok1 xy sq1 nb1] g2
  have "(cell_at g2 x y AND kMountUp \<noteq> 0) =
        (cell_at g x y AND kMountUp \<noteq> 0 \<or> square_mountable g w h x y 0 (- 1)) \<and>
     (cell_at g2 x y AND kMountDown \<noteq> 0) =
        (cell_at g x y AND kMountDown \<noteq> 0 \<or> square_mountable g w h x y 0 1) \<and>
     (cell_at g2 x y AND kMountLeft \<noteq> 0) =
        (cell_at g x y AND kMountLeft \<noteq> 0 \<or> square_mountable g w h x y (- 1) 0) \<and>
     (cell_at g2 x y AND kMountRight \<noteq> 0) =
        (cell_at g x y AND kMountRight \<noteq> 0 \<or> square_mountable g w h x y 1 0)"
    by (simp add: same1 sm)
  with g' ok' show ?thesis
    by (simp add: DetectMountPoints_def same2)
qed

subsection \<open>AdjustObstacles\<close>

lemma filter4_first:
  "(case filter P [a, b, c, d] of [] \<Rightarrow> None | e # _ \<Rightarrow> Some (f e)) =
     (if P a then Some (f a) else if P b then Some (f b)
      else if P c then Some (f c) else if P d then Some (f d) else None)"
  by simp

lemma filter4_single:
  "(case filter P [a, b, c, d] of [e] \<Rightarrow> Some (f e) | _ \<Rightarrow> None) =
     (if P a \<and> \<not> P b \<and> \<not> P c \<and> \<not> P d then Some (f a)
      else if \<not> P a \<and> P b \<and> \<not> P c \<and> \<not> P d then Some (f b)
      else if \<not> P a \<and> \<not> P b \<and> P c \<and> \<not> P d then Some (f c)
      else if \<not> P a \<and> \<not> P b \<and> \<not> P c \<and> P d then Some (f d)
      else None)"
  by simp

lemma filter4_length:
  "int (length (filter P [a, b, c, d])) =
     (if P d then 1 else 0) + (if P c then 1 else 0) + (if P b then 1 else 0) +
     (if P a then 1 else 0)"
  by simp

lemma chain_shape:
  assumes res: "res =
      (if n3 then (if u1 then Some U else if u2 then Some D else if u3 then Some L
                   else if u4 then Some Rt else None)
       else if n4 then (if p1 then Some U else if p2 then Some D else if p3 then Some L
                        else if p4 then Some Rt else None)
       else None)"
    and viol: "v = (if B then dB else if C then dC else if n3 then d3 else if n4 then d4 else d5)"
  shows "(if A then s1
          else if B then R dB
          else if C then R dC
          else if n3 then (if u1 then F U else if u2 then F D else if u3 then F L
                           else if u4 then F Rt else R d3)
          else if n4 then (if p1 then F U else if p2 then F D else if p3 then F L
                           else if p4 then F Rt else R d4)
          else R d5) =
         (if A then s1
          else if (\<not> B \<and> \<not> C) \<and> res \<noteq> None then F (the res)
          else R v)"
  unfolding res viol by auto

lemma AdjustObstacles_body_eq:
  assumes "in_grid w h x y"
  shows "AdjustObstacles_body w h (x, y) st =
     (let g = out_grid st; st1 = breakable_check x y st in
      if cell_at g x y AND kCollectibleTileMask = 0 then st1
      else if placement_ok w h g x y
      then count_collectible x y
             (set_direction x y (the (resolve_with away_from_wall g x y)) st1)
      else report (placement_violation w h g x y) st1)"
proof -
  let ?g = "out_grid st"
  let ?nb = "\<lambda>e::int \<times> int \<times> int. cell_at ?g (x + fst (snd e)) (y + snd (snd e))"
  let ?clear = "filter (\<lambda>e. empty_or_breakable (?nb e)) away_from_wall"
  have cnt: "int (length ?clear) = empty_count ?g x y"
    unfolding away_from_wall_def filter4_length empty_count_def
    by (simp add: IS_EMPTY_OR_BREAKABLE_nb_def IS_BREAKABLE_def METADATA_BITS_def
        empty_or_breakable_def)
  have c3: "length ?clear = 3 \<longleftrightarrow> empty_count ?g x y = 3"
    and c4: "length ?clear = 4 \<longleftrightarrow> empty_count ?g x y = 4"
    unfolding cnt [symmetric] by auto
  have walls: "(case filter (\<lambda>e. unbreakable_square (?nb e)) away_from_wall of
                  [] \<Rightarrow> None | e # _ \<Rightarrow> Some (fst e)) =
      (if IS_UNBREAKABLE_SQUARE ?g x y 0 1 then Some kCollectibleTileUp
       else if IS_UNBREAKABLE_SQUARE ?g x y 0 (- 1) then Some kCollectibleTileDown
       else if IS_UNBREAKABLE_SQUARE ?g x y 1 0 then Some kCollectibleTileLeft
       else if IS_UNBREAKABLE_SQUARE ?g x y (- 1) 0 then Some kCollectibleTileRight
       else None)"
    unfolding away_from_wall_def filter4_first
    by (simp add: IS_UNBREAKABLE_SQUARE_def METADATA_BITS_def unbreakable_square_def)
  have brk: "(case filter (\<lambda>e. breakable (?nb e)) away_from_wall of
                  [e] \<Rightarrow> Some (fst e) | _ \<Rightarrow> None) =
      (if IS_BREAKABLE ?g x y 0 1 \<and> \<not> IS_BREAKABLE ?g x y 0 (- 1) \<and>
          \<not> IS_BREAKABLE ?g x y 1 0 \<and> \<not> IS_BREAKABLE ?g x y (- 1) 0
       then Some kCollectibleTileUp
       else if \<not> IS_BREAKABLE ?g x y 0 1 \<and> IS_BREAKABLE ?g x y 0 (- 1) \<and>
          \<not> IS_BREAKABLE ?g x y 1 0 \<and> \<not> IS_BREAKABLE ?g x y (- 1) 0
       then Some kCollectibleTileDown
       else if \<not> IS_BREAKABLE ?g x y 0 1 \<and> \<not> IS_BREAKABLE ?g x y 0 (- 1) \<and>
          IS_BREAKABLE ?g x y 1 0 \<and> \<not> IS_BREAKABLE ?g x y (- 1) 0
       then Some kCollectibleTileLeft
       else if \<not> IS_BREAKABLE ?g x y 0 1 \<and> \<not> IS_BREAKABLE ?g x y 0 (- 1) \<and>
          \<not> IS_BREAKABLE ?g x y 1 0 \<and> IS_BREAKABLE ?g x y (- 1) 0
       then Some kCollectibleTileRight
       else None)"
    unfolding away_from_wall_def filter4_single
    by (simp add: IS_BREAKABLE_def METADATA_BITS_def breakable_def)
  have res: "resolve_with away_from_wall ?g x y =
      (if empty_count ?g x y = 3 then
         (if IS_UNBREAKABLE_SQUARE ?g x y 0 1 then Some kCollectibleTileUp
          else if IS_UNBREAKABLE_SQUARE ?g x y 0 (- 1) then Some kCollectibleTileDown
          else if IS_UNBREAKABLE_SQUARE ?g x y 1 0 then Some kCollectibleTileLeft
          else if IS_UNBREAKABLE_SQUARE ?g x y (- 1) 0 then Some kCollectibleTileRight
          else None)
       else if empty_count ?g x y = 4 then
         (if IS_BREAKABLE ?g x y 0 1 \<and> \<not> IS_BREAKABLE ?g x y 0 (- 1) \<and>
             \<not> IS_BREAKABLE ?g x y 1 0 \<and> \<not> IS_BREAKABLE ?g x y (- 1) 0
          then Some kCollectibleTileUp
          else if \<not> IS_BREAKABLE ?g x y 0 1 \<and> IS_BREAKABLE ?g x y 0 (- 1) \<and>
             \<not> IS_BREAKABLE ?g x y 1 0 \<and> \<not> IS_BREAKABLE ?g x y (- 1) 0
          then Some kCollectibleTileDown
          else if \<not> IS_BREAKABLE ?g x y 0 1 \<and> \<not> IS_BREAKABLE ?g x y 0 (- 1) \<and>
             IS_BREAKABLE ?g x y 1 0 \<and> \<not> IS_BREAKABLE ?g x y (- 1) 0
          then Some kCollectibleTileLeft
          else if \<not> IS_BREAKABLE ?g x y 0 1 \<and> \<not> IS_BREAKABLE ?g x y 0 (- 1) \<and>
             \<not> IS_BREAKABLE ?g x y 1 0 \<and> IS_BREAKABLE ?g x y (- 1) 0
          then Some kCollectibleTileRight
          else None)
       else None)"
    unfolding resolve_with_def Let_def walls brk c3 c4 ..
  have viol: "placement_violation w h ?g x y =
     (if cell_at ?g x y AND NOT (kCollectibleTileMask OR kTerminalReaction) \<noteq> 0
      then CollectibleOverlap y x (x * kTileSize + kTileSize div 2) (y * kTileSize + kTileSize div 2)
      else if x = 0 \<or> x = w - 1 \<or> y = 0 \<or> y = h - 1
      then CollectibleNearEdge y x (x * kTileSize + kTileSize div 2) (y * kTileSize + kTileSize div 2)
      else if empty_count ?g x y = 3
      then CollectibleNeedsSquare y x (x * kTileSize + kTileSize div 2) (y * kTileSize + kTileSize div 2)
      else if empty_count ?g x y = 4
      then CollectibleNeedsOneWall y x (x * kTileSize + kTileSize div 2) (y * kTileSize + kTileSize div 2)
      else CollectibleNeedsThreeEmpty y x (x * kTileSize + kTileSize div 2)
             (y * kTileSize + kTileSize div 2))"
    unfolding placement_violation_def Let_def c3 c4 ..
  have edge: "(0 < x \<and> x < w - 1 \<and> 0 < y \<and> y < h - 1) \<longleftrightarrow>
              \<not> (x = 0 \<or> x = w - 1 \<or> y = 0 \<or> y = h - 1)"
    using assms by (auto simp: in_grid_def)
  define st1 where "st1 = breakable_check x y st"
  define F where "F = (\<lambda>bit. count_collectible x y (set_direction x y bit st1))"
  have step0: "AdjustObstacles_body w h (x, y) st =
     (if cell_at ?g x y AND kCollectibleTileMask = 0 then st1
      else if cell_at ?g x y AND NOT (kCollectibleTileMask OR kTerminalReaction) \<noteq> 0
      then report (CollectibleOverlap y x (x * kTileSize + kTileSize div 2)
                     (y * kTileSize + kTileSize div 2)) st1
      else if x = 0 \<or> x = w - 1 \<or> y = 0 \<or> y = h - 1
      then report (CollectibleNearEdge y x (x * kTileSize + kTileSize div 2)
                     (y * kTileSize + kTileSize div 2)) st1
      else
        if empty_count ?g x y = 3 then
          if IS_UNBREAKABLE_SQUARE ?g x y 0 1 then F kCollectibleTileUp
          else if IS_UNBREAKABLE_SQUARE ?g x y 0 (- 1) then F kCollectibleTileDown
          else if IS_UNBREAKABLE_SQUARE ?g x y 1 0 then F kCollectibleTileLeft
          else if IS_UNBREAKABLE_SQUARE ?g x y (- 1) 0 then F kCollectibleTileRight
          else report (CollectibleNeedsSquare y x (x * kTileSize + kTileSize div 2)
                         (y * kTileSize + kTileSize div 2)) st1
        else if empty_count ?g x y = 4 then
          if IS_BREAKABLE ?g x y 0 1 \<and> \<not> IS_BREAKABLE ?g x y 0 (- 1) \<and>
             \<not> IS_BREAKABLE ?g x y 1 0 \<and> \<not> IS_BREAKABLE ?g x y (- 1) 0
          then F kCollectibleTileUp
          else if \<not> IS_BREAKABLE ?g x y 0 1 \<and> IS_BREAKABLE ?g x y 0 (- 1) \<and>
                  \<not> IS_BREAKABLE ?g x y 1 0 \<and> \<not> IS_BREAKABLE ?g x y (- 1) 0
          then F kCollectibleTileDown
          else if \<not> IS_BREAKABLE ?g x y 0 1 \<and> \<not> IS_BREAKABLE ?g x y 0 (- 1) \<and>
                  IS_BREAKABLE ?g x y 1 0 \<and> \<not> IS_BREAKABLE ?g x y (- 1) 0
          then F kCollectibleTileLeft
          else if \<not> IS_BREAKABLE ?g x y 0 1 \<and> \<not> IS_BREAKABLE ?g x y 0 (- 1) \<and>
                  \<not> IS_BREAKABLE ?g x y 1 0 \<and> IS_BREAKABLE ?g x y (- 1) 0
          then F kCollectibleTileRight
          else report (CollectibleNeedsOneWall y x (x * kTileSize + kTileSize div 2)
                         (y * kTileSize + kTileSize div 2)) st1
        else report (CollectibleNeedsThreeEmpty y x (x * kTileSize + kTileSize div 2)
                       (y * kTileSize + kTileSize div 2)) st1)"
    unfolding AdjustObstacles_body_def Let_def prod.case F_def st1_def breakable_check_def ..
  have pok: "placement_ok w h ?g x y \<longleftrightarrow>
      (\<not> cell_at ?g x y AND NOT (kCollectibleTileMask OR kTerminalReaction) \<noteq> 0 \<and>
       \<not> (x = 0 \<or> x = w - 1 \<or> y = 0 \<or> y = h - 1)) \<and>
      resolve_with away_from_wall ?g x y \<noteq> None"
    unfolding placement_ok_def using edge by blast
  have goal: "(let g = out_grid st; st1 = breakable_check x y st in
      if cell_at g x y AND kCollectibleTileMask = 0 then st1
      else if placement_ok w h g x y
      then count_collectible x y
             (set_direction x y (the (resolve_with away_from_wall g x y)) st1)
      else report (placement_violation w h g x y) st1) =
     (if cell_at ?g x y AND kCollectibleTileMask = 0 then st1
      else if (\<not> cell_at ?g x y AND NOT (kCollectibleTileMask OR kTerminalReaction) \<noteq> 0 \<and>
               \<not> (x = 0 \<or> x = w - 1 \<or> y = 0 \<or> y = h - 1)) \<and>
              resolve_with away_from_wall ?g x y \<noteq> None
      then F (the (resolve_with away_from_wall ?g x y))
      else report (placement_violation w h ?g x y) st1)"
    unfolding Let_def F_def st1_def pok ..
  show ?thesis
    unfolding step0 goal
    by (rule chain_shape [where R = "\<lambda>d. report d st1", OF res viol])
qed

lemma report_simps [simp]:
  "out_grid (report d st) = out_grid st"
  "success_status (report d st) = False"
  "reports (report d st) = reports st @ [d]"
  "collectible_obstacles (report d st) = collectible_obstacles st"
  by (simp_all add: report_def)

lemma set_direction_simps [simp]:
  "out_grid (set_direction x y b st) =
     cell_set (out_grid st) x y ((cell_at (out_grid st) x y AND NOT kCollectibleTileMask) OR b)"
  "success_status (set_direction x y b st) = success_status st"
  "reports (set_direction x y b st) = reports st"
  "collectible_obstacles (set_direction x y b st) = collectible_obstacles st"
  by (simp_all add: set_direction_def)

lemma breakable_check_simps [simp]:
  "out_grid (breakable_check x y st) = out_grid st"
  "list_ex (collectible_report_at a b) (reports (breakable_check x y st)) =
     list_ex (collectible_report_at a b) (reports st)"
  by (simp_all add: breakable_check_def Let_def collectible_report_at_def)

lemma breakable_check_success:
  "success_status (breakable_check x y st) \<Longrightarrow> success_status st"
  by (simp add: breakable_check_def Let_def split: if_splits)

lemma count_collectible_simps [simp]:
  "out_grid (count_collectible x y st) = out_grid st"
  "list_ex (collectible_report_at a b) (reports (count_collectible x y st)) =
     list_ex (collectible_report_at a b) (reports st)"
  by (simp_all add: count_collectible_def Let_def collectible_report_at_def)

lemma count_collectible_success:
  "success_status (count_collectible x y st) \<Longrightarrow> success_status st"
  by (simp add: count_collectible_def Let_def split: if_splits)

lemma placement_violation_cases:
  "placement_violation w h g x y \<in>
     {CollectibleOverlap y x (x * kTileSize + kTileSize div 2) (y * kTileSize + kTileSize div 2),
      CollectibleNearEdge y x (x * kTileSize + kTileSize div 2) (y * kTileSize + kTileSize div 2),
      CollectibleNeedsSquare y x (x * kTileSize + kTileSize div 2) (y * kTileSize + kTileSize div 2),
      CollectibleNeedsOneWall y x (x * kTileSize + kTileSize div 2) (y * kTileSize + kTileSize div 2),
      CollectibleNeedsThreeEmpty y x (x * kTileSize + kTileSize div 2)
        (y * kTileSize + kTileSize div 2)}"
  unfolding placement_violation_def Let_def by (simp only: split: if_split) blast

lemma collectible_report_at_violation:
  "collectible_report_at a b (placement_violation w h g x y) \<longleftrightarrow> a = x \<and> b = y"
  using placement_violation_cases [of w h g x y]
  by (auto simp: collectible_report_at_def Let_def)

lemma first_in: "(case xs of [] \<Rightarrow> None | e # _ \<Rightarrow> Some (f e)) = Some b \<Longrightarrow> \<exists>e\<in>set xs. f e = b"
  by (cases xs) auto

lemma single_in: "(case xs of [e] \<Rightarrow> Some (f e) | _ \<Rightarrow> None) = Some b \<Longrightarrow> \<exists>e\<in>set xs. f e = b"
  by (cases xs; cases "tl xs") auto

lemma resolve_with_bits:
  assumes "resolve_with away_from_wall g x y = Some b"
  shows "b \<in> {kCollectibleTileUp, kCollectibleTileDown, kCollectibleTileLeft,
               kCollectibleTileRight}"
proof -
  have "\<exists>e\<in>set away_from_wall. fst e = b"
    using assms unfolding resolve_with_def Let_def
    by (auto split: if_splits dest!: first_in single_in)
  then show ?thesis by (auto simp: away_from_wall_def)
qed

lemma direction_keeps:
  fixes t b :: int
  assumes "b \<in> {kCollectibleTileUp, kCollectibleTileDown, kCollectibleTileLeft,
                  kCollectibleTileRight}"
  shows "((t AND NOT kCollectibleTileMask) OR b) AND NOT kCollectibleTileMask
           = t AND NOT kCollectibleTileMask"
    and "((t AND NOT kCollectibleTileMask) OR b) AND kCollectibleTileMask = b"
  using assms by (auto simp: k_defs bit.conj_disj_distrib2 and.assoc)

lemma stable_c_refl: "grid_ok w h g \<Longrightarrow> stable_c w h g g"
  by (simp add: stable_c_def)

lemma stable_c_trans: "stable_c w h g g' \<Longrightarrow> stable_c w h g' g'' \<Longrightarrow> stable_c w h g g''"
  by (simp add: stable_c_def)

lemma stable_c_preds:
  assumes "stable_c w h g g'" "in_grid w h a b"
  shows "empty_or_breakable (cell_at g' a b) = empty_or_breakable (cell_at g a b)"
    and "unbreakable_square (cell_at g' a b) = unbreakable_square (cell_at g a b)"
    and "breakable (cell_at g' a b) = breakable (cell_at g a b)"
proof -
  have k: "(u AND NOT kCollectibleTileMask) AND kCollisionMask = u AND kCollisionMask"
    "(u AND NOT kCollectibleTileMask) AND kBreakableTile = u AND kBreakableTile"
    "(u AND NOT kCollectibleTileMask) AND (kBreakableTile OR kCollisionMask)
       = u AND (kBreakableTile OR kCollisionMask)" for u :: int
    by (simp_all add: k_defs and.assoc)
  from assms have e: "cell_at g' a b AND NOT kCollectibleTileMask
                    = cell_at g a b AND NOT kCollectibleTileMask"
    by (simp add: stable_c_def)
  have "cell_at g' a b AND kCollisionMask = cell_at g a b AND kCollisionMask"
    "cell_at g' a b AND kBreakableTile = cell_at g a b AND kBreakableTile"
    "cell_at g' a b AND (kBreakableTile OR kCollisionMask)
       = cell_at g a b AND (kBreakableTile OR kCollisionMask)"
    using k [of "cell_at g' a b"] k [of "cell_at g a b"] e by simp_all
  then show "empty_or_breakable (cell_at g' a b) = empty_or_breakable (cell_at g a b)"
    and "unbreakable_square (cell_at g' a b) = unbreakable_square (cell_at g a b)"
    and "breakable (cell_at g' a b) = breakable (cell_at g a b)"
    by (simp_all only: empty_or_breakable_def unbreakable_square_def breakable_def)
qed

lemma stable_c_resolve:
  assumes "stable_c w h g g'" "0 < x" "x < w - 1" "0 < y" "y < h - 1"
  shows "resolve_with away_from_wall g' x y = resolve_with away_from_wall g x y"
proof -
  have nb: "in_grid w h (x + 0) (y + 1)" "in_grid w h (x + 0) (y + - 1)"
    "in_grid w h (x + 1) (y + 0)" "in_grid w h (x + - 1) (y + 0)"
    using assms(2-5) by (simp_all add: in_grid_def)
  note p = stable_c_preds [OF assms(1) nb(1)] stable_c_preds [OF assms(1) nb(2)]
    stable_c_preds [OF assms(1) nb(3)] stable_c_preds [OF assms(1) nb(4)]
  show ?thesis
    unfolding resolve_with_def away_from_wall_def Let_def
    by (simp only: filter.simps fst_conv snd_conv p)
qed

lemma stable_c_placement_ok:
  assumes "stable_c w h g g'" "cell_at g' x y = cell_at g x y"
  shows "placement_ok w h g' x y = placement_ok w h g x y"
proof (cases "0 < x \<and> x < w - 1 \<and> 0 < y \<and> y < h - 1")
  case True
  then show ?thesis
    using stable_c_resolve [OF assms(1), of x y] assms(2) by (simp add: placement_ok_def)
next
  case False
  then show ?thesis unfolding placement_ok_def by blast
qed

text \<open>The three outcomes of one iteration.\<close>

lemma AdjustObstacles_body_cases [consumes 1, case_names plain resolved violation]:
  assumes "in_grid w h x y"
  obtains
    (plain) "cell_at (out_grid st) x y AND kCollectibleTileMask = 0"
      "AdjustObstacles_body w h (x, y) st = breakable_check x y st"
  | (resolved) b where "cell_at (out_grid st) x y AND kCollectibleTileMask \<noteq> 0"
      "placement_ok w h (out_grid st) x y"
      "resolve_with away_from_wall (out_grid st) x y = Some b"
      "AdjustObstacles_body w h (x, y) st =
         count_collectible x y (set_direction x y b (breakable_check x y st))"
  | (violation) "cell_at (out_grid st) x y AND kCollectibleTileMask \<noteq> 0"
      "\<not> placement_ok w h (out_grid st) x y"
      "AdjustObstacles_body w h (x, y) st =
         report (placement_violation w h (out_grid st) x y) (breakable_check x y st)"
proof (cases "cell_at (out_grid st) x y AND kCollectibleTileMask = 0")
  case True
  then show ?thesis
    using plain by (simp add: AdjustObstacles_body_eq [OF assms] Let_def)
next
  case nz: False
  show ?thesis
  proof (cases "placement_ok w h (out_grid st) x y")
    case True
    then obtain b where b: "resolve_with away_from_wall (out_grid st) x y = Some b"
      unfolding placement_ok_def by blast
    show ?thesis
      using resolved [OF nz True b] nz True
      by (simp add: AdjustObstacles_body_eq [OF assms] Let_def b)
  next
    case False
    then show ?thesis
      using violation [OF nz False] nz
      by (simp add: AdjustObstacles_body_eq [OF assms] Let_def)
  qed
qed

text \<open>One iteration: the grid outside the direction bits of the cell, and the reports.\<close>

lemma AdjustObstacles_body_stable:
  assumes ok: "grid_ok w h (out_grid st)" and xy: "in_grid w h x y"
  shows "stable_c w h (out_grid st) (out_grid (AdjustObstacles_body w h (x, y) st))"
  using xy
proof (cases rule: AdjustObstacles_body_cases [where st = st])
  case plain
  then show ?thesis using ok by (simp add: stable_c_refl)
next
  case (resolved b)
  note keep = direction_keeps(1) [OF resolve_with_bits [OF resolved(3)]]
  show ?thesis
    using ok xy keep
    by (simp add: resolved(4) stable_c_def grid_ok_cell_set cell_at_cell_set)
next
  case violation
  then show ?thesis using ok by (simp add: stable_c_refl)
qed

lemma AdjustObstacles_body_other:
  assumes ok: "grid_ok w h (out_grid st)" and xy: "in_grid w h x y"
    and ab: "in_grid w h a b" "(a, b) \<noteq> (x, y)"
  shows "cell_at (out_grid (AdjustObstacles_body w h (x, y) st)) a b = cell_at (out_grid st) a b"
  using xy
proof (cases rule: AdjustObstacles_body_cases [where st = st])
  case plain
  then show ?thesis by simp
next
  case (resolved b)
  then show ?thesis using ok xy ab by (auto simp: cell_at_cell_set)
next
  case violation
  then show ?thesis by simp
qed

lemma AdjustObstacles_body_reports_other:
  assumes xy: "in_grid w h x y" and ab: "(a, b) \<noteq> (x, y)"
  shows "list_ex (collectible_report_at a b) (reports (AdjustObstacles_body w h (x, y) st)) =
         list_ex (collectible_report_at a b) (reports st)"
  using xy
proof (cases rule: AdjustObstacles_body_cases [where st = st])
  case plain
  then show ?thesis by simp
next
  case (resolved b)
  then show ?thesis by simp
next
  case violation
  then show ?thesis using ab by (auto simp: collectible_report_at_violation)
qed

lemma AdjustObstacles_body_success:
  assumes xy: "in_grid w h x y" and s: "success_status (AdjustObstacles_body w h (x, y) st)"
  shows "success_status st"
  using xy
proof (cases rule: AdjustObstacles_body_cases [where st = st])
  case plain
  with s show ?thesis by (auto dest: breakable_check_success)
next
  case (resolved b)
  with s have "success_status (count_collectible x y (set_direction x y b (breakable_check x y st)))"
    by simp
  then have "success_status (set_direction x y b (breakable_check x y st))"
    by (rule count_collectible_success)
  then have "success_status (breakable_check x y st)" by simp
  then show ?thesis by (rule breakable_check_success)
next
  case violation
  with s show ?thesis by simp
qed

text \<open>The same facts for a run of iterations.\<close>

lemma AdjustObstacles_fold_stable:
  assumes "grid_ok w h (out_grid st)" "\<forall>p\<in>set cs. in_grid w h (fst p) (snd p)"
  shows "stable_c w h (out_grid st) (out_grid (fold (AdjustObstacles_body w h) cs st))"
  using assms
proof (induction cs arbitrary: st)
  case Nil
  then show ?case by (simp add: stable_c_refl)
next
  case (Cons p cs)
  obtain x y where p: "p = (x, y)" by (cases p)
  from Cons.prems(2) have xy: "in_grid w h x y" by (simp add: p)
  have s1: "stable_c w h (out_grid st) (out_grid (AdjustObstacles_body w h (x, y) st))"
    using Cons.prems(1) xy by (rule AdjustObstacles_body_stable)
  then have "grid_ok w h (out_grid (AdjustObstacles_body w h (x, y) st))"
    by (simp add: stable_c_def)
  from Cons.IH [OF this] Cons.prems(2)
  have "stable_c w h (out_grid (AdjustObstacles_body w h (x, y) st))
          (out_grid (fold (AdjustObstacles_body w h) cs (AdjustObstacles_body w h (x, y) st)))"
    by simp
  with s1 show ?case by (simp add: p stable_c_trans)
qed

lemma AdjustObstacles_fold_other:
  assumes "grid_ok w h (out_grid st)" "\<forall>p\<in>set cs. in_grid w h (fst p) (snd p)"
    "in_grid w h a b" "(a, b) \<notin> set cs"
  shows "cell_at (out_grid (fold (AdjustObstacles_body w h) cs st)) a b = cell_at (out_grid st) a b"
  using assms
proof (induction cs arbitrary: st)
  case Nil
  then show ?case by simp
next
  case (Cons p cs)
  obtain x y where p: "p = (x, y)" by (cases p)
  let ?st = "AdjustObstacles_body w h (x, y) st"
  from Cons.prems(2) have xy: "in_grid w h x y" by (simp add: p)
  from Cons.prems(4) have ne: "(a, b) \<noteq> (x, y)" by (simp add: p)
  have "stable_c w h (out_grid st) (out_grid ?st)"
    using Cons.prems(1) xy by (rule AdjustObstacles_body_stable)
  then have ok1: "grid_ok w h (out_grid ?st)" by (simp add: stable_c_def)
  have "cell_at (out_grid (fold (AdjustObstacles_body w h) cs ?st)) a b = cell_at (out_grid ?st) a b"
    using Cons.IH [OF ok1 _ Cons.prems(3)] Cons.prems(2,4) by simp
  also have "\<dots> = cell_at (out_grid st) a b"
    using Cons.prems(1) xy Cons.prems(3) ne by (rule AdjustObstacles_body_other)
  finally show ?case by (simp add: p)
qed

lemma AdjustObstacles_fold_reports_other:
  assumes "\<forall>p\<in>set cs. in_grid w h (fst p) (snd p)" "(a, b) \<notin> set cs"
  shows "list_ex (collectible_report_at a b) (reports (fold (AdjustObstacles_body w h) cs st)) =
         list_ex (collectible_report_at a b) (reports st)"
  using assms
proof (induction cs arbitrary: st)
  case Nil
  then show ?case by simp
next
  case (Cons p cs)
  obtain x y where p: "p = (x, y)" by (cases p)
  let ?st = "AdjustObstacles_body w h (x, y) st"
  from Cons.prems(1) have xy: "in_grid w h x y" by (simp add: p)
  from Cons.prems(2) have ne: "(a, b) \<noteq> (x, y)" by (simp add: p)
  have "list_ex (collectible_report_at a b) (reports (fold (AdjustObstacles_body w h) cs ?st)) =
        list_ex (collectible_report_at a b) (reports ?st)"
    using Cons.IH [of ?st] Cons.prems by simp
  also have "\<dots> = list_ex (collectible_report_at a b) (reports st)"
    using xy ne by (rule AdjustObstacles_body_reports_other)
  finally show ?case by (simp add: p)
qed

lemma AdjustObstacles_fold_success:
  assumes "\<forall>p\<in>set cs. in_grid w h (fst p) (snd p)"
    "success_status (fold (AdjustObstacles_body w h) cs st)"
  shows "success_status st"
  using assms
proof (induction cs arbitrary: st)
  case Nil
  then show ?case by simp
next
  case (Cons p cs)
  obtain x y where p: "p = (x, y)" by (cases p)
  from Cons.prems(1) have xy: "in_grid w h x y" by (simp add: p)
  from Cons.IH [of "AdjustObstacles_body w h (x, y) st"] Cons.prems
  have "success_status (AdjustObstacles_body w h (x, y) st)" by (simp add: p)
  with xy show ?case by (rule AdjustObstacles_body_success)
qed

lemma AdjustObstacles_cell:
  assumes ok: "grid_ok w h g" and xy: "in_grid w h x y"
    and col: "cell_at g x y AND kCollectibleTileMask \<noteq> 0"
  shows "grid_ok w h (out_grid (AdjustObstacles_loop w h g))"
    and "placement_ok w h g x y \<Longrightarrow>
         \<exists>b\<in>{kCollectibleTileUp, kCollectibleTileDown, kCollectibleTileLeft,
               kCollectibleTileRight}.
           resolve_with away_from_wall g x y = Some b \<and>
           cell_at (out_grid (AdjustObstacles_loop w h g)) x y =
             (cell_at g x y AND NOT kCollectibleTileMask) OR b \<and>
           \<not> list_ex (collectible_report_at x y) (reports (AdjustObstacles_loop w h g))"
    and "\<not> placement_ok w h g x y \<Longrightarrow>
         cell_at (out_grid (AdjustObstacles_loop w h g)) x y = cell_at g x y \<and>
         list_ex (collectible_report_at x y) (reports (AdjustObstacles_loop w h g)) \<and>
         \<not> success_status (AdjustObstacles_loop w h g)"
proof -
  let ?st0 = "\<lparr>out_grid = g, success_status = True, collectible_obstacles = 0, reports = []\<rparr>"
  let ?body = "AdjustObstacles_body w h"
  have inr: "\<forall>p\<in>set (raster w h). in_grid w h (fst p) (snd p)" by auto
  from xy have "(x, y) \<in> set (raster w h)" by simp
  then obtain as bs where split: "raster w h = as @ (x, y) # bs"
    by (blast dest: split_list)
  from distinct_raster [of w h] split
  have notin: "(x, y) \<notin> set as" "(x, y) \<notin> set bs" by auto
  from inr have inas: "\<forall>p\<in>set as. in_grid w h (fst p) (snd p)"
    and inbs: "\<forall>p\<in>set bs. in_grid w h (fst p) (snd p)"
    unfolding split by auto
  define st1 where "st1 = fold ?body as ?st0"
  define st2 where "st2 = ?body (x, y) st1"
  have final: "AdjustObstacles_loop w h g = fold ?body bs st2"
    by (simp add: AdjustObstacles_loop_def split st1_def st2_def)
  have ok0: "grid_ok w h (out_grid ?st0)" using ok by simp
  have s1: "stable_c w h g (out_grid st1)"
    using AdjustObstacles_fold_stable [OF ok0 inas] by (simp add: st1_def)
  then have ok1: "grid_ok w h (out_grid st1)" by (simp add: stable_c_def)
  have same1: "cell_at (out_grid st1) x y = cell_at g x y"
    using AdjustObstacles_fold_other [OF ok0 inas xy notin(1)] by (simp add: st1_def)
  have rep1: "\<not> list_ex (collectible_report_at x y) (reports st1)"
    using AdjustObstacles_fold_reports_other [OF inas notin(1), of ?st0] by (simp add: st1_def)
  have "stable_c w h (out_grid st1) (out_grid st2)"
    unfolding st2_def using ok1 xy by (rule AdjustObstacles_body_stable)
  then have ok2: "grid_ok w h (out_grid st2)" by (simp add: stable_c_def)
  have "stable_c w h (out_grid st2) (out_grid (fold ?body bs st2))"
    using ok2 inbs by (rule AdjustObstacles_fold_stable)
  then show "grid_ok w h (out_grid (AdjustObstacles_loop w h g))"
    by (simp add: final stable_c_def)
  have cell3: "cell_at (out_grid (AdjustObstacles_loop w h g)) x y = cell_at (out_grid st2) x y"
    unfolding final using ok2 inbs xy notin(2) by (rule AdjustObstacles_fold_other)
  have rep3: "list_ex (collectible_report_at x y) (reports (AdjustObstacles_loop w h g)) =
              list_ex (collectible_report_at x y) (reports st2)"
    unfolding final using inbs notin(2) by (rule AdjustObstacles_fold_reports_other)
  have pok: "placement_ok w h (out_grid st1) x y = placement_ok w h g x y"
    using s1 same1 by (rule stable_c_placement_ok)
  from col have col1: "cell_at (out_grid st1) x y AND kCollectibleTileMask \<noteq> 0"
    by (simp add: same1)
  {
    assume good: "placement_ok w h g x y"
    then have int: "0 < x" "x < w - 1" "0 < y" "y < h - 1" by (simp_all add: placement_ok_def)
    have res1: "resolve_with away_from_wall (out_grid st1) x y = resolve_with away_from_wall g x y"
      using s1 int by (rule stable_c_resolve)
    from xy obtain b where
      b: "resolve_with away_from_wall (out_grid st1) x y = Some b"
      and st2: "st2 = count_collectible x y (set_direction x y b (breakable_check x y st1))"
      using col1 good pok unfolding st2_def
      by (cases rule: AdjustObstacles_body_cases [where st = st1]) auto
    have bits: "b \<in> {kCollectibleTileUp, kCollectibleTileDown, kCollectibleTileLeft,
                      kCollectibleTileRight}"
      using b by (rule resolve_with_bits)
    have "cell_at (out_grid st2) x y = (cell_at g x y AND NOT kCollectibleTileMask) OR b"
      using ok1 xy by (simp add: st2 cell_at_cell_set same1)
    moreover have "\<not> list_ex (collectible_report_at x y) (reports st2)"
      using rep1 by (simp add: st2)
    ultimately show "\<exists>b\<in>{kCollectibleTileUp, kCollectibleTileDown, kCollectibleTileLeft,
               kCollectibleTileRight}.
           resolve_with away_from_wall g x y = Some b \<and>
           cell_at (out_grid (AdjustObstacles_loop w h g)) x y =
             (cell_at g x y AND NOT kCollectibleTileMask) OR b \<and>
           \<not> list_ex (collectible_report_at x y) (reports (AdjustObstacles_loop w h g))"
      using bits b res1 cell3 rep3 by auto
  }
  {
    assume bad: "\<not> placement_ok w h g x y"
    from xy have st2: "st2 = report (placement_violation w h (out_grid st1) x y)
                               (breakable_check x y st1)"
      using col1 bad pok unfolding st2_def
      by (cases rule: AdjustObstacles_body_cases [where st = st1]) auto
    have "cell_at (out_grid st2) x y = cell_at g x y" by (simp add: st2 same1)
    moreover have "list_ex (collectible_report_at x y) (reports st2)"
      by (simp add: st2 collectible_report_at_violation)
    moreover have "\<not> success_status (fold ?body bs st2)"
    proof
      assume "success_status (fold ?body bs st2)"
      with inbs have "success_status st2" by (rule AdjustObstacles_fold_success)
      then show False by (simp add: st2)
    qed
    ultimately show "cell_at (out_grid (AdjustObstacles_loop w h g)) x y = cell_at g x y \<and>
         list_ex (collectible_report_at x y) (reports (AdjustObstacles_loop w h g)) \<and>
         \<not> success_status (AdjustObstacles_loop w h g)"
      using cell3 rep3 final by simp
  }
qed

section \<open>Properties of ProcessAnnotations\<close>






lemma length_resize [simp]: "length (resize n d xs) = n"
  by (simp add: resize_def)






section \<open>Properties of the validators of ProcessMetadataImage\<close>
















lemma filter_empty_iff_all: "(\<forall>p\<in>set ps. P p) \<longleftrightarrow> map f (filter (\<lambda>p. \<not> P p) ps) = []"
  by (simp add: filter_empty_conv)

section \<open>The example images\<close>













section \<open>Claims\<close>

text \<open>
  C1 as stated: after the pass a square, unbreakable cell has the mount bit of a direction
  exactly when its two outward cells in that direction are empty or breakable. A lone
  square cell in the middle of an empty 5 by 5 grid has both cells above it empty, and the
  pass leaves it without the mount-up bit: AssignMountAttributes also requires both lateral
  neighbours to have the cell's own collision shape.
\<close>

theorem lone_square_not_mountable:
  "grid_ok 5 5 [[0,0,0,0,0],[0,0,0,0,0],[0,0,1,0,0],[0,0,0,0,0],[0,0,0,0,0]] \<and>
   cell_at [[0,0,0,0,0],[0,0,0,0,0],[0,0,1,0,0],[0,0,0,0,0],[0,0,0,0,0]] 2 2 AND kCollisionMask
     = kCollisionSquare \<and>
   cell_at [[0,0,0,0,0],[0,0,0,0,0],[0,0,1,0,0],[0,0,0,0,0],[0,0,0,0,0]] 2 2 AND kBreakableTile
     = 0 \<and>
   outward_clear [[0,0,0,0,0],[0,0,0,0,0],[0,0,1,0,0],[0,0,0,0,0],[0,0,0,0,0]] 5 5 2 2 0 (- 1) \<and>
   DetectMountPoints 5 5 [[0,0,0,0,0],[0,0,0,0,0],[0,0,1,0,0],[0,0,0,0,0],[0,0,0,0,0]]
     = Inr [[0,0,0,0,0],[0,0,0,0,0],[0,0,1,0,0],[0,0,0,0,0],[0,0,0,0,0]] \<and>
   cell_at [[0,0,0,0,0],[0,0,0,0,0],[0,0,1,0,0],[0,0,0,0,0],[0,0,0,0,0]] 2 2 AND kMountUp = 0"
  by code_simp

text \<open>
  C1, amended: on a grid whose cells carry the collision codes of the annotation pass, the
  mounting pass succeeds, and for a square cell that is not breakable and each axis
  direction, the mount bit is set afterwards exactly when it was set before or all of the
  following hold: the two cells stepping outward in the direction are empty or breakable
  (a position outside the grid is neither), and both lateral neighbours (the cells at the
  two quarter-turn rotations of the direction) lie in the grid, have the square collision
  shape, and have their own two outward cells empty or breakable.
\<close>

theorem square_mount_bits:
  assumes "grid_ok w h g" and "list_all (list_all known_shape) g"
    and "in_grid w h x y"
    and "cell_at g x y AND kCollisionMask = kCollisionSquare"
    and "cell_at g x y AND kBreakableTile = 0"
  shows "\<exists>g'. DetectMountPoints w h g = Inr g' \<and> grid_ok w h g' \<and>
           list_all (\<lambda>(bit, dx, dy).
               (cell_at g' x y AND bit \<noteq> 0) =
                 (cell_at g x y AND bit \<noteq> 0 \<or> square_mountable g w h x y dx dy))
             axis_directions"
  using DetectMountPoints_square_cell [OF assms]
  by (simp add: axis_directions_def)

theorem square_mount_bits_witness:
  "grid_ok 5 5 [[0,0,0,0,0],[0,0,0,0,0],[0,1,1,1,0],[0,0,0,0,0],[0,0,0,0,0]] \<and>
   list_all (list_all known_shape) [[0,0,0,0,0],[0,0,0,0,0],[0,1,1,1,0],[0,0,0,0,0],[0,0,0,0,0]] \<and>
   square_mountable [[0,0,0,0,0],[0,0,0,0,0],[0,1,1,1,0],[0,0,0,0,0],[0,0,0,0,0]] 5 5 2 2 0 (- 1) \<and>
   \<not> square_mountable [[0,0,0,0,0],[0,0,0,0,0],[0,1,1,1,0],[0,0,0,0,0],[0,0,0,0,0]] 5 5 2 2 1 0 \<and>
   DetectMountPoints 5 5 [[0,0,0,0,0],[0,0,0,0,0],[0,1,1,1,0],[0,0,0,0,0],[0,0,0,0,0]]
     = Inr [[0,0,0,0,0],[0,0,0,0,0],[0,1,0x31,1,0],[0,0,0,0,0],[0,0,0,0,0]] \<and>
   cell_at [[0,0,0,0,0],[0,0,0,0,0],[0,1,0x31,1,0],[0,0,0,0,0],[0,0,0,0,0]] 2 2 AND kMountUp \<noteq> 0 \<and>
   cell_at [[0,0,0,0,0],[0,0,0,0,0],[0,1,0x31,1,0],[0,0,0,0,0],[0,0,0,0,0]] 2 2 AND kMountRight = 0"
proof -
  let ?g = "[[0,0,0,0,0],[0,0,0,0,0],[0,1,1,1,0],[0,0,0,0,0],[0,0,0,0,0::int]]"
  let ?g' = "[[0,0,0,0,0],[0,0,0,0,0],[0,1,0x31,1,0],[0,0,0,0,0],[0,0,0,0,0::int]]"
  have h1: "grid_ok 5 5 ?g" by code_simp
  have h2: "list_all (list_all known_shape) ?g" by code_simp
  have h3: "in_grid 5 5 2 2" by code_simp
  have h4: "cell_at ?g 2 2 AND kCollisionMask = kCollisionSquare" by code_simp
  have h5: "cell_at ?g 2 2 AND kBreakableTile = 0" by code_simp
  have up: "square_mountable ?g 5 5 2 2 0 (- 1)" by code_simp
  have right: "\<not> square_mountable ?g 5 5 2 2 1 0" by code_simp
  have before: "cell_at ?g 2 2 AND kMountUp = 0" "cell_at ?g 2 2 AND kMountRight = 0"
    by code_simp+
  have run: "DetectMountPoints 5 5 ?g = Inr ?g'" by code_simp
  from square_mount_bits [OF h1 h2 h3 h4 h5] run
  have "(cell_at ?g' 2 2 AND kMountUp \<noteq> 0) =
          (cell_at ?g 2 2 AND kMountUp \<noteq> 0 \<or> square_mountable ?g 5 5 2 2 0 (- 1))"
    and "(cell_at ?g' 2 2 AND kMountRight \<noteq> 0) =
          (cell_at ?g 2 2 AND kMountRight \<noteq> 0 \<or> square_mountable ?g 5 5 2 2 1 0)"
    by (simp_all add: axis_directions_def)
  with up right before
  have "cell_at ?g' 2 2 AND kMountUp \<noteq> 0" "cell_at ?g' 2 2 AND kMountRight = 0"
    by simp_all
  with h1 h2 up right run show ?thesis by blast
qed




text \<open>
  C4 as stated: the direction bit of a resolved collectible points at its wall. In the grid
  below the collectible at \<open>(1, 1)\<close> has its only wall above it, at \<open>(1, 0)\<close>; read
  with the table \<open>toward_wall\<close> the rule gives the bit \<open>kCollectibleTileUp\<close>, and
  AdjustObstacles leaves the cell with \<open>kCollectibleTileDown\<close>: the bit names the side
  opposite to the wall, as the comment on the collectible bit masks says.
\<close>

theorem collectible_direction_not_toward_wall:
  "grid_ok 3 3 [[0, 1, 0], [0, 0xF00, 0], [0, 0, 0]] \<and>
   cell_at [[0, 1, 0], [0, 0xF00, 0], [0, 0, 0]] 1 1 AND kCollectibleTileMask \<noteq> 0 \<and>
   unbreakable_square (cell_at [[0, 1, 0], [0, 0xF00, 0], [0, 0, 0]] 1 0) \<and>
   resolve_with toward_wall [[0, 1, 0], [0, 0xF00, 0], [0, 0, 0]] 1 1 = Some kCollectibleTileUp \<and>
   AdjustObstacles 3 3 [[0, 1, 0], [0, 0xF00, 0], [0, 0, 0]]
     = (True, [[0, 1, 0], [0, 0x200, 0], [0, 0, 0]], []) \<and>
   cell_at [[0, 1, 0], [0, 0x200, 0], [0, 0, 0]] 1 1 AND kCollectibleTileMask
     = kCollectibleTileDown \<and>
   kCollectibleTileDown \<noteq> kCollectibleTileUp"
  by code_simp

text \<open>
  C4, amended: a collectible cell is placed well when it carries no bit besides the
  collectible and terminal reaction bits, is not on the border of the grid, and its four
  orthogonal neighbours show one of two patterns: exactly three are empty or breakable and
  a remaining one is an unbreakable square, or all four are empty or breakable and exactly
  one of them is breakable. AdjustObstacles leaves such a cell with exactly one direction
  bit, in place of the four it carried: the bit that names the side opposite to that wall
  or breakable neighbour (up for a neighbour below, down for one above, left for one to the
  right, right for one to the left, tried in this order), and prints no placement report
  about the cell. Every other collectible cell is left as it was, a placement report about
  it is printed, and the function returns failure.
\<close>

theorem collectible_direction:
  assumes "grid_ok w h g" and "in_grid w h x y"
    and "cell_at g x y AND kCollectibleTileMask \<noteq> 0"
  shows "case AdjustObstacles w h g of (success, g', rs) \<Rightarrow>
     grid_ok w h g' \<and>
     (if placement_ok w h g x y
      then (\<exists>b\<in>{kCollectibleTileUp, kCollectibleTileDown, kCollectibleTileLeft,
                  kCollectibleTileRight}.
              resolve_with away_from_wall g x y = Some b \<and>
              cell_at g' x y = (cell_at g x y AND NOT kCollectibleTileMask) OR b \<and>
              cell_at g' x y AND kCollectibleTileMask = b) \<and>
           \<not> list_ex (collectible_report_at x y) rs
      else cell_at g' x y = cell_at g x y \<and>
           list_ex (collectible_report_at x y) rs \<and> \<not> success)"
proof (cases "placement_ok w h g x y")
  case True
  from AdjustObstacles_cell(2) [OF assms True] obtain b where
    b: "b \<in> {kCollectibleTileUp, kCollectibleTileDown, kCollectibleTileLeft,
              kCollectibleTileRight}"
    "resolve_with away_from_wall g x y = Some b"
    "cell_at (out_grid (AdjustObstacles_loop w h g)) x y =
       (cell_at g x y AND NOT kCollectibleTileMask) OR b"
    "\<not> list_ex (collectible_report_at x y) (reports (AdjustObstacles_loop w h g))"
    by blast
  have "cell_at (out_grid (AdjustObstacles_loop w h g)) x y AND kCollectibleTileMask = b"
    unfolding b(3) using b(1) by (rule direction_keeps(2))
  with b AdjustObstacles_cell(1) [OF assms] True show ?thesis
    unfolding AdjustObstacles_def Let_def by auto
next
  case False
  from AdjustObstacles_cell(3) [OF assms False] AdjustObstacles_cell(1) [OF assms] False
  show ?thesis
    by (simp add: AdjustObstacles_def Let_def)
qed

theorem collectible_direction_witness:
  "grid_ok 3 3 [[0, 1, 0], [0, 0xF00, 0], [0, 0, 0]] \<and> in_grid 3 3 1 1 \<and>
   cell_at [[0, 1, 0], [0, 0xF00, 0], [0, 0, 0]] 1 1 AND kCollectibleTileMask \<noteq> 0 \<and>
   placement_ok 3 3 [[0, 1, 0], [0, 0xF00, 0], [0, 0, 0]] 1 1 \<and>
   resolve_with away_from_wall [[0, 1, 0], [0, 0xF00, 0], [0, 0, 0]] 1 1
     = Some kCollectibleTileDown \<and>
   AdjustObstacles 3 3 [[0, 1, 0], [0, 0xF00, 0], [0, 0, 0]]
     = (True, [[0, 1, 0], [0, 0x200, 0], [0, 0, 0]], []) \<and>
   cell_at [[0, 1, 0], [0, 0x200, 0], [0, 0, 0]] 1 1 AND kCollectibleTileMask
     = kCollectibleTileDown"
proof -
  let ?g = "[[0, 1, 0], [0, 0xF00, 0], [0, 0, 0::int]]"
  let ?g' = "[[0, 1, 0], [0, 0x200, 0], [0, 0, 0::int]]"
  have h1: "grid_ok 3 3 ?g" by code_simp
  have h2: "in_grid 3 3 1 1" by code_simp
  have h3: "cell_at ?g 1 1 AND kCollectibleTileMask \<noteq> 0" by code_simp
  have good: "placement_ok 3 3 ?g 1 1" by code_simp
  have res: "resolve_with away_from_wall ?g 1 1 = Some kCollectibleTileDown" by code_simp
  have run: "AdjustObstacles 3 3 ?g = (True, ?g', [])" by code_simp
  from collectible_direction [OF h1 h2 h3] good run obtain b where
    "resolve_with away_from_wall ?g 1 1 = Some b"
    "cell_at ?g' 1 1 AND kCollectibleTileMask = b"
    by auto
  with res have "cell_at ?g' 1 1 AND kCollectibleTileMask = kCollectibleTileDown"
    by simp
  with h1 h2 h3 good res run show ?thesis by blast
qed

text \<open>
  C5. CheckTerminalReactions returns success exactly when every cell of the grid that
  carries the terminal reaction flag has an orthogonal neighbour inside the grid that
  carries the chain reaction flag, and it reports each terminal reaction cell without such
  a neighbour (all of them, in raster order, and nothing else).
\<close>

theorem CheckTerminalReactions_iff:
  "(fst (CheckTerminalReactions w h tiles) \<longleftrightarrow>
      (\<forall>x y. in_grid w h x y \<and> cell_at tiles x y AND kTerminalReaction \<noteq> 0
          \<longrightarrow> has_chain_neighbour w h tiles x y)) \<and>
   snd (CheckTerminalReactions w h tiles) =
      map terminal_diagnostic (filter (unreachable_terminal w h tiles) (raster w h))"
proof -
  have "\<forall>p\<in>set (raster w h). in_grid w h (fst p) (snd p)" by auto
  then have "CheckTerminalReactions w h tiles =
      ((\<forall>p\<in>set (raster w h). \<not> unreachable_terminal w h tiles p),
       map terminal_diagnostic (filter (unreachable_terminal w h tiles) (raster w h)))"
    unfolding CheckTerminalReactions_def
    by (subst fold_CheckTerminalReactions) simp_all
  then show ?thesis
    by (auto simp: unreachable_terminal_def)
qed

theorem CheckTerminalReactions_iff_witness:
  "in_grid 3 1 0 0 \<and> cell_at [[0x2000, 0, 0x2000]] 0 0 AND kTerminalReaction \<noteq> 0 \<and>
   \<not> has_chain_neighbour 3 1 [[0x2000, 0, 0x2000]] 0 0 \<and>
   \<not> fst (CheckTerminalReactions 3 1 [[0x2000, 0, 0x2000]]) \<and>
   snd (CheckTerminalReactions 3 1 [[0x2000, 0, 0x2000]]) =
     [TerminalNeedsChain 0 0 16 16, TerminalNeedsChain 0 2 80 16]"
proof -
  let ?g = "[[0x2000, 0, 0x2000 :: int]]"
  have a: "in_grid 3 1 0 0" by (simp add: in_grid_def)
  have b: "cell_at ?g 0 0 AND kTerminalReaction \<noteq> 0" by (simp add: cell_at_def k_defs)
  have c: "\<not> has_chain_neighbour 3 1 ?g 0 0"
    by (simp add: has_chain_neighbour_def in_grid_def cell_at_def k_defs)
  have "fst (CheckTerminalReactions 3 1 ?g) \<Longrightarrow> has_chain_neighbour 3 1 ?g 0 0"
    using CheckTerminalReactions_iff [of 3 1 ?g] a b by blast
  with c have d: "\<not> fst (CheckTerminalReactions 3 1 ?g)" by blast
  have "map terminal_diagnostic (filter (unreachable_terminal 3 1 ?g) (raster 3 1)) =
     [TerminalNeedsChain 0 0 16 16, TerminalNeedsChain 0 2 80 16]"
    by code_simp
  with CheckTerminalReactions_iff [of 3 1 ?g]
  have e: "snd (CheckTerminalReactions 3 1 ?g) =
     [TerminalNeedsChain 0 0 16 16, TerminalNeedsChain 0 2 80 16]"
    by simp
  from a b c d e show ?thesis by blast
qed






text \<open>
  C9. The ghost-cleanup pass always returns success and keeps the grid's dimensions. A cell
  without the ghost flag is left as it was. A cell with the ghost flag loses exactly the
  ghost flag and the three collision-shape bits: every other bit of the cell (in particular
  the mount flags, the breakable flag, the collectible directions and the chain and
  terminal reaction flags) keeps its value.
\<close>

theorem RemoveGhosts_clears_only_ghost_cells:
  assumes "grid_ok w h g" and "in_grid w h x y"
  shows "fst (RemoveGhosts w h g) \<and>
         grid_ok w h (snd (RemoveGhosts w h g)) \<and>
         (let t = cell_at g x y; t' = cell_at (snd (RemoveGhosts w h g)) x y in
          if t AND kGhostCollisionTile = 0 then t' = t
          else t' AND kGhostCollisionTile = 0 \<and>
               t' AND kCollisionMask = 0 \<and>
               t' AND NOT (kGhostCollisionTile OR kCollisionMask)
                 = t AND NOT (kGhostCollisionTile OR kCollisionMask) \<and>
               t' AND kMountMask = t AND kMountMask \<and>
               t' AND kBreakableTile = t AND kBreakableTile \<and>
               t' AND kCollectibleTileMask = t AND kCollectibleTileMask \<and>
               t' AND kChainReaction = t AND kChainReaction \<and>
               t' AND kTerminalReaction = t AND kTerminalReaction)"
proof -
  have "grid_ok w h (snd (RemoveGhosts w h g))"
    using assms(1) by (simp add: RemoveGhosts_def grid_ok_fold_RemoveGhosts)
  moreover have "fst (RemoveGhosts w h g)"
    by (simp add: RemoveGhosts_def)
  moreover have "cell_at (snd (RemoveGhosts w h g)) x y =
           (if cell_at g x y AND kGhostCollisionTile \<noteq> 0
            then cell_at g x y AND NOT (kGhostCollisionTile OR kCollisionMask)
            else cell_at g x y)"
    using fold_RemoveGhosts_cell [OF assms] by (simp add: RemoveGhosts_def)
  ultimately show ?thesis
    using ghost_cleared_bits [of "cell_at g x y"] by (simp add: Let_def)
qed

theorem RemoveGhosts_clears_only_ghost_cells_witness:
  "grid_ok 2 1 [[0x4011, 0x01]] \<and> in_grid 2 1 0 0 \<and>
   fst (RemoveGhosts 2 1 [[0x4011, 0x01]]) \<and>
   cell_at [[0x4011, 0x01]] 0 0 AND kGhostCollisionTile \<noteq> 0 \<and>
   cell_at (snd (RemoveGhosts 2 1 [[0x4011, 0x01]])) 0 0 AND kCollisionMask = 0 \<and>
   cell_at (snd (RemoveGhosts 2 1 [[0x4011, 0x01]])) 0 0 AND kMountMask = 0x10"
proof -
  have h1: "grid_ok 2 1 [[0x4011, 0x01]]" by (simp add: grid_ok_def)
  have h2: "in_grid 2 1 0 0" by (simp add: in_grid_def)
  show ?thesis
    using RemoveGhosts_clears_only_ghost_cells [OF h1 h2] h1 h2
    by (simp add: Let_def cell_at_def k_defs)
qed

text \<open>
  C10. For a grid of \<open>h > 0\<close> rows and \<open>w > 0\<close> columns, IndexOfLastRow lies in
  \<open>[0, h)\<close>: the trimming of trailing blank rows never removes the first row, so the
  declared cell count \<open>(IndexOfLastRow + 1) * w\<close> covers at least one row; every table
  that is written declares that count, and a table is written whenever the scanned cells
  are art-layer cells with no run of more than 32767 blanks. When every cell is blank,
  IndexOfLastRow is 0, the table declares \<open>w\<close> cells and its body is the single blank-run
  entry \<open>- w\<close>. The bound \<open>w \<le> 32767\<close> is the range of the assertion on the run length
  in the scanning loop; every layer the tool can load lies inside it, because an image is
  at most 1000000 pixels wide (the limit of the PNG library, which the tool does not
  raise), that is 31250 cells.
\<close>

theorem all_blank_layer_table:
  assumes "grid_ok w h tiles" "0 < h" "0 < w"
  shows "0 \<le> IndexOfLastRow tiles \<and> IndexOfLastRow tiles < h \<and>
         w \<le> (IndexOfLastRow tiles + 1) * w \<and>
         (\<forall>n body. WriteTileTable tiles = Inr (n, body) \<longrightarrow>
                     n = (IndexOfLastRow tiles + 1) * w) \<and>
         (list_all art_cell (scanned_cells tiles) \<and>
          longest_blank_run 0 (scanned_cells tiles) \<le> 0x7fff \<longrightarrow>
            (\<exists>body. WriteTileTable tiles = Inr ((IndexOfLastRow tiles + 1) * w, body))) \<and>
         (list_all (list_all (\<lambda>c. c = kBlankTile)) tiles \<longrightarrow>
            IndexOfLastRow tiles = 0 \<and>
            (w \<le> 0x7fff \<longrightarrow> WriteTileTable tiles = Inr (w, [- w])))"
proof -
  from assms(1,2) have ne: "tiles \<noteq> []" and h: "int (length tiles) = h"
    by (auto simp: grid_ok_def)
  have b: "0 \<le> IndexOfLastRow tiles" "IndexOfLastRow tiles < h"
    using IndexOfLastRow_bounds [OF ne] h by simp_all
  have hd: "int (length (hd tiles)) = w"
    using scanned_cells_length(2) [OF assms(1,2)] .
  have "1 * w \<le> (IndexOfLastRow tiles + 1) * w"
    using b(1) assms(3) by (intro mult_right_mono) simp_all
  then have row: "w \<le> (IndexOfLastRow tiles + 1) * w" by simp
  have decl: "n = (IndexOfLastRow tiles + 1) * w"
    if "WriteTileTable tiles = Inr (n, body)" for n body
    using that ne by (auto simp: WriteTileTable_def Let_def hd split: sum.splits)
  have written: "\<exists>body. WriteTileTable tiles = Inr ((IndexOfLastRow tiles + 1) * w, body)"
    if "list_all art_cell (scanned_cells tiles)"
      "longest_blank_run 0 (scanned_cells tiles) \<le> 0x7fff"
    using WriteTileTable_ok [OF ne that] hd by auto
  have blank: "IndexOfLastRow tiles = 0 \<and>
               (w \<le> 0x7fff \<longrightarrow> WriteTileTable tiles = Inr (w, [- w]))"
    if all: "list_all (list_all (\<lambda>c. c = kBlankTile)) tiles"
  proof -
    note sc = scanned_cells_blank [OF assms(1,2) all]
    have "WriteTileTable tiles = Inr (w, [- w])" if "w \<le> 0x7fff"
    proof -
      have "scan_cells (replicate (nat w) kBlankTile)
              (0, \<lparr>written = [], text_row_size = 0, value_pair_buffer = 0\<rparr>)
            = Inr (0 + int (nat w), \<lparr>written = [], text_row_size = 0, value_pair_buffer = 0\<rparr>)"
        using that assms(3) by (intro scan_cells_blank_run) simp_all
      then show ?thesis
        using ne assms(3)
        by (simp add: WriteTileTable_def Let_def sc hd Flush_def WriteBlankRun_def
            FlushBufferedNonblankValue_def Write_def)
    qed
    with sc(1) show ?thesis by simp
  qed
  from b row decl written blank show ?thesis by blast
qed

theorem all_blank_layer_table_witness:
  "grid_ok 2 2 [[kBlankTile, kBlankTile], [kBlankTile, kBlankTile]] \<and>
   list_all (list_all (\<lambda>c. c = kBlankTile)) [[kBlankTile, kBlankTile], [kBlankTile, kBlankTile]] \<and>
   IndexOfLastRow [[kBlankTile, kBlankTile], [kBlankTile, kBlankTile]] = 0 \<and>
   WriteTileTable [[kBlankTile, kBlankTile], [kBlankTile, kBlankTile]] = Inr (2, [- 2])"
proof -
  let ?t = "[[kBlankTile, kBlankTile], [kBlankTile, kBlankTile]]"
  have h1: "grid_ok 2 2 ?t" by (simp add: grid_ok_def)
  have h2: "(0::int) < 2" by simp
  have h3: "list_all (list_all (\<lambda>c. c = kBlankTile)) ?t" by simp
  have h4: "(2::int) \<le> 0x7fff" by simp
  from all_blank_layer_table [OF h1 h2 h2] h3 h4
  have "IndexOfLastRow ?t = 0 \<and> WriteTileTable ?t = Inr (2, [- 2])" by blast
  with h1 h3 show ?thesis by blast
qed

end
